theory Spec2Isabelle
  imports Main
begin

section \<open>The compiled generator object (compiled\_generator.hpp)\<close>

text \<open>
  The header declares the storage of a compiled generator and five inline operations on
  it: the type check, the name accessor, \<open>CHECK_EXCEPTION\<close>, \<open>YIELD_VALUE\<close> and
  \<open>YIELD_RETURN\<close>. They work on reference-counted objects through pointers that may
  alias, so the model is an explicit store: a heap from addresses to objects, next to the
  error indicator of the thread state. A \<open>PyObject *\<close> is an optional address, \<open>None\<close>
  being \<open>NULL\<close>.
\<close>

subsection \<open>Data\<close>

type_synonym addr = nat
type_synonym ptr = "addr option"

text \<open>
  Modelled from the spec: \<open>Fiber\<close> is declared in \<open>fibers.hpp\<close>, which is not part of
  the sources. It is an opaque handle of a stackful execution context.
\<close>

type_synonym Fiber = nat

datatype Generator_Status = status_Unused | status_Running | status_Finished

text \<open>
  \<open>PyObject_HEAD\<close>: the reference count and the type pointer every object starts with.
  The count is a \<open>Py_ssize_t\<close>; its overflow is undefined behaviour in C and out of reach
  of the operations here, which add or remove one reference at a time, so it is an
  unbounded integer.
\<close>

record PyObject =
  ob_refcnt :: int
  ob_type :: ptr

record Nuitka_GeneratorObject = PyObject +
  m_name :: ptr
  m_yielder_context :: Fiber
  m_caller_context :: Fiber
  m_context :: ptr
  m_cleanup :: ptr
  m_weakrefs :: ptr
  m_running :: int
  m_code :: ptr
  m_yielded :: ptr
  m_exception_type :: ptr
  m_exception_value :: ptr
  m_exception_tb :: ptr
  m_frame :: ptr
  m_code_object :: ptr
  m_status :: Generator_Status

text \<open>What an address holds: some object, of which only the head matters, or a generator.\<close>

datatype object = Object PyObject | Generator Nuitka_GeneratorObject

text \<open>
  The state of the process as far as the header touches it. \<open>other_stacks\<close> stands for
  the memory private to the other fibers (the caller's stack); the code of the header never
  addresses it.
\<close>

record 'c world =
  heap :: "addr \<rightharpoonup> object"
  curexc_type :: ptr
  curexc_value :: ptr
  curexc_traceback :: ptr
  other_stacks :: 'c

text \<open>
  The constants of the build that the header and the runtime functions it calls refer to
  and do not define: the version macro and the addresses of three static objects, the
  \<open>None\<close> object, the type of compiled generators and the type of tracebacks.
\<close>

record build =
  PYTHON_VERSION :: nat
  Py_None :: addr
  Nuitka_Generator_Type :: addr
  PyTraceBack_Type :: addr

subsection \<open>Outcomes\<close>

text \<open>
  An operation either returns, or ends in one of four ways: the C++ exception
  \<open>_PythonException\<close> is thrown, an \<open>assert\<close> fails and the process aborts, a pointer
  that holds no object of the expected kind is dereferenced, or control is switched away
  and never comes back.
\<close>

datatype signal = PythonException | AssertionFailure | InvalidAccess | NotResumed

type_synonym ('c, 'a) action = "'c world \<Rightarrow> (signal + 'a) \<times> 'c world"

definition ret :: "'a \<Rightarrow> ('c, 'a) action" where
  "ret x w = (Inr x, w)"

definition fail :: "signal \<Rightarrow> ('c, 'a) action" where
  "fail e w = (Inl e, w)"

definition then_with :: "('c, 'a) action \<Rightarrow> ('a \<Rightarrow> ('c, 'b) action) \<Rightarrow> ('c, 'b) action" where
  "then_with m k w = (case m w of (Inl e, w') \<Rightarrow> (Inl e, w') | (Inr x, w') \<Rightarrow> k x w')"

definition then_do :: "('c, 'a) action \<Rightarrow> ('c, 'b) action \<Rightarrow> ('c, 'b) action" where
  "then_do m n = then_with m (\<lambda>_. n)"

subsection \<open>Objects and reference counts\<close>

text \<open>
  \<open>Py_TYPE\<close>, \<open>Py_INCREF\<close>, \<open>Py_XINCREF\<close>, \<open>Py_DECREF\<close> and \<open>Py_XDECREF\<close> are
  macros of the runtime's headers: they read the type pointer and add or remove one
  reference, the \<open>X\<close> forms doing nothing on \<open>NULL\<close>.
\<close>

fun obj_refcnt :: "object \<Rightarrow> int" where
  "obj_refcnt (Object h) = ob_refcnt h"
| "obj_refcnt (Generator g) = ob_refcnt g"

fun obj_type :: "object \<Rightarrow> ptr" where
  "obj_type (Object h) = ob_type h"
| "obj_type (Generator g) = ob_type g"

fun obj_add_refcnt :: "int \<Rightarrow> object \<Rightarrow> object" where
  "obj_add_refcnt n (Object h) = Object (h\<lparr>ob_refcnt := ob_refcnt h + n\<rparr>)"
| "obj_add_refcnt n (Generator g) = Generator (g\<lparr>ob_refcnt := ob_refcnt g + n\<rparr>)"

definition Py_TYPE :: "ptr \<Rightarrow> ('c, ptr) action" where
  "Py_TYPE ob w =
     (case ob of
        None \<Rightarrow> (Inl InvalidAccess, w)
      | Some a \<Rightarrow>
          (case heap w a of
             None \<Rightarrow> (Inl InvalidAccess, w)
           | Some obj \<Rightarrow> (Inr (obj_type obj), w)))"

definition Py_INCREF :: "ptr \<Rightarrow> ('c, unit) action" where
  "Py_INCREF ob w =
     (case ob of
        None \<Rightarrow> (Inl InvalidAccess, w)
      | Some a \<Rightarrow>
          (case heap w a of
             None \<Rightarrow> (Inl InvalidAccess, w)
           | Some obj \<Rightarrow> (Inr (), w\<lparr>heap := (heap w)(a \<mapsto> obj_add_refcnt 1 obj)\<rparr>)))"

definition Py_XINCREF :: "ptr \<Rightarrow> ('c, unit) action" where
  "Py_XINCREF ob = (if ob = None then ret () else Py_INCREF ob)"

text \<open>
  Releasing a reference. What the deallocator of an object does when its count reaches
  zero is outside the header: here the object stays where it is, with a count that says it
  is dead.
\<close>

definition Py_DECREF :: "ptr \<Rightarrow> ('c, unit) action" where
  "Py_DECREF ob w =
     (case ob of
        None \<Rightarrow> (Inl InvalidAccess, w)
      | Some a \<Rightarrow>
          (case heap w a of
             None \<Rightarrow> (Inl InvalidAccess, w)
           | Some obj \<Rightarrow> (Inr (), w\<lparr>heap := (heap w)(a \<mapsto> obj_add_refcnt (- 1) obj)\<rparr>)))"

definition Py_XDECREF :: "ptr \<Rightarrow> ('c, unit) action" where
  "Py_XDECREF ob = (if ob = None then ret () else Py_DECREF ob)"

text \<open>
  \<open>PyErr_Restore\<close> is a function of the runtime the header is compiled against, not
  part of the sources; the model follows the runtime's implementation. A traceback argument
  that is not \<open>NULL\<close> and whose type is not the traceback type (\<open>None\<close>, for one) is
  released and replaced by \<open>NULL\<close>. Then the function installs the kind, the value and
  this traceback as the error indicator, taking ownership of the references it was given
  (it adds none of its own), and releases the references the indicator held before.
\<close>

definition PyTraceBack_Check :: "build \<Rightarrow> ptr \<Rightarrow> ('c, bool) action" where
  "PyTraceBack_Check b v = then_with (Py_TYPE v) (\<lambda>t. ret (t = Some (PyTraceBack_Type b)))"

definition PyErr_Restore :: "build \<Rightarrow> ptr \<Rightarrow> ptr \<Rightarrow> ptr \<Rightarrow> ('c, unit) action" where
  "PyErr_Restore b type val traceback =
     then_with
       (if traceback \<noteq> None then
          then_with (PyTraceBack_Check b traceback) (\<lambda>is_traceback.
            if \<not> is_traceback then then_do (Py_DECREF traceback) (ret None)
            else ret traceback)
        else ret traceback)
       (\<lambda>traceback w.
          let oldtype = curexc_type w;
              oldvalue = curexc_value w;
              oldtraceback = curexc_traceback w
          in then_do (Py_XDECREF oldtype)
               (then_do (Py_XDECREF oldvalue)
                  (Py_XDECREF oldtraceback))
               (w\<lparr>curexc_type := type, curexc_value := val, curexc_traceback := traceback\<rparr>))"

text \<open>
  Modelled from the spec: \<open>assertObject\<close> is defined in another header, not part of the
  sources. It is the assertion of the live-reference invariant: the pointer is not
  \<open>NULL\<close> and the object it points to has a positive reference count; otherwise the
  process aborts.
\<close>

definition assertObject :: "ptr \<Rightarrow> ('c, unit) action" where
  "assertObject ob w =
     (case ob of
        None \<Rightarrow> (Inl AssertionFailure, w)
      | Some a \<Rightarrow>
          (case heap w a of
             None \<Rightarrow> (Inl InvalidAccess, w)
           | Some obj \<Rightarrow>
               if 0 < obj_refcnt obj then (Inr (), w) else (Inl AssertionFailure, w)))"

subsection \<open>Access to the fields of a generator\<close>

definition generator_at :: "ptr \<Rightarrow> 'c world \<Rightarrow> Nuitka_GeneratorObject option" where
  "generator_at p w =
     (case p of
        None \<Rightarrow> None
      | Some a \<Rightarrow> (case heap w a of Some (Generator g) \<Rightarrow> Some g | _ \<Rightarrow> None))"

text \<open>\<open>deref p k\<close> reads the generator \<open>p\<close> points to and goes on with \<open>k\<close>.\<close>

definition deref :: "ptr \<Rightarrow> (Nuitka_GeneratorObject \<Rightarrow> ('c, 'a) action) \<Rightarrow> ('c, 'a) action" where
  "deref p k w =
     (case generator_at p w of
        None \<Rightarrow> (Inl InvalidAccess, w)
      | Some g \<Rightarrow> k g w)"

text \<open>\<open>assign p f\<close> writes fields of the generator \<open>p\<close> points to.\<close>

definition assign :: "ptr \<Rightarrow> (Nuitka_GeneratorObject \<Rightarrow> Nuitka_GeneratorObject) \<Rightarrow> ('c, unit) action" where
  "assign p f w =
     (case p of
        None \<Rightarrow> (Inl InvalidAccess, w)
      | Some a \<Rightarrow>
          (case generator_at p w of
             None \<Rightarrow> (Inl InvalidAccess, w)
           | Some g \<Rightarrow> (Inr (), w\<lparr>heap := (heap w)(a \<mapsto> Generator (f g))\<rparr>)))"

subsection \<open>Fibers\<close>

text \<open>
  Modelled from the spec: \<open>swapFiber\<close> is declared in \<open>fibers.hpp\<close>, not part of the
  sources. It suspends the running context and resumes the target; it carries no value.
  What the rest of the program does from the moment control reaches the target fiber until
  control is switched back is the parameter \<open>env\<close>: it maps the state at the switch to
  the state at the resumption, or to \<open>None\<close> when the suspended fiber is never resumed.
\<close>

type_synonym 'c env = "Fiber \<Rightarrow> 'c world \<Rightarrow> 'c world option"

definition swapFiber :: "'c env \<Rightarrow> Fiber \<Rightarrow> Fiber \<Rightarrow> ('c, unit) action" where
  "swapFiber env from to w =
     (case env to w of
        None \<Rightarrow> (Inl NotResumed, w)
      | Some w' \<Rightarrow> (Inr (), w'))"

subsection \<open>The operations of the header\<close>

text \<open>
  Each takes the build as its first argument where it, or a runtime function it calls,
  refers to one of the constants above; \<open>YIELD_VALUE\<close> and \<open>YIELD_RETURN\<close> take
  the environment of the fiber switch next.
\<close>

definition Nuitka_Generator_Check :: "build \<Rightarrow> ptr \<Rightarrow> ('c, bool) action" where
  "Nuitka_Generator_Check b ob =
     then_with (Py_TYPE ob) (\<lambda>t. ret (t = Some (Nuitka_Generator_Type b)))"

definition Nuitka_Generator_GetName :: "ptr \<Rightarrow> ('c, ptr) action" where
  "Nuitka_Generator_GetName ob = deref ob (\<lambda>g. ret (m_name g))"

definition CHECK_EXCEPTION :: "build \<Rightarrow> ptr \<Rightarrow> ('c, unit) action" where
  "CHECK_EXCEPTION b generator =
     deref generator (\<lambda>g0.
       if m_exception_type g0 \<noteq> None then
         then_do (deref generator (\<lambda>g. assertObject (m_exception_type g)))
        (then_do (deref generator (\<lambda>g. Py_INCREF (m_exception_type g)))
        (then_do (deref generator (\<lambda>g. Py_XINCREF (m_exception_value g)))
        (then_do (deref generator (\<lambda>g. Py_XINCREF (m_exception_tb g)))
        (then_do (deref generator (\<lambda>g.
                    PyErr_Restore b (m_exception_type g) (m_exception_value g) (m_exception_tb g)))
        (then_do (assign generator (\<lambda>g. g\<lparr>m_exception_type := None\<rparr>))
                 (fail PythonException))))))
       else ret ())"

definition YIELD_VALUE :: "build \<Rightarrow> 'c env \<Rightarrow> ptr \<Rightarrow> ptr \<Rightarrow> ('c, ptr) action" where
  "YIELD_VALUE b env generator val =
     then_do (assertObject val)
    (then_do (assign generator (\<lambda>g. g\<lparr>m_yielded := val\<rparr>))
    (then_do (deref generator (\<lambda>g. swapFiber env (m_yielder_context g) (m_caller_context g)))
    (then_do (CHECK_EXCEPTION b generator)
             (deref generator (\<lambda>g. ret (m_yielded g))))))"

definition YIELD_RETURN :: "build \<Rightarrow> 'c env \<Rightarrow> ptr \<Rightarrow> ptr \<Rightarrow> ('c, unit) action" where
  "YIELD_RETURN b env generator val =
     (if PYTHON_VERSION b < 270 then
        (if val \<noteq> Some (Py_None b) then
           then_do (YIELD_VALUE b env generator val) (ret ())
         else ret ())
      else ret ())"

subsection \<open>Producer bodies\<close>

text \<open>
  As far as the header is concerned, the body of a generator is a sequence of calls of its
  operations, each on some generator or object. A thrown \<open>_PythonException\<close> may be
  caught by the body, which then goes on; after any other signal nothing more runs.
\<close>

datatype operation =
    Yield ptr ptr
  | Yield_Return ptr ptr
  | Check_Exception ptr
  | Get_Name ptr
  | Type_Check ptr

fun run_op :: "build \<Rightarrow> 'c env \<Rightarrow> operation \<Rightarrow> ('c, unit) action" where
  "run_op b env (Yield generator val) = then_do (YIELD_VALUE b env generator val) (ret ())"
| "run_op b env (Yield_Return generator val) = YIELD_RETURN b env generator val"
| "run_op b env (Check_Exception generator) = CHECK_EXCEPTION b generator"
| "run_op b env (Get_Name ob) = then_do (Nuitka_Generator_GetName ob) (ret ())"
| "run_op b env (Type_Check ob) = then_do (Nuitka_Generator_Check b ob) (ret ())"

fun run_ops :: "build \<Rightarrow> 'c env \<Rightarrow> operation list \<Rightarrow> 'c world \<Rightarrow> signal option \<times> 'c world" where
  "run_ops b env [] w = (None, w)"
| "run_ops b env (x # xs) w =
     (case run_op b env x w of
        (Inr _, w') \<Rightarrow> run_ops b env xs w'
      | (Inl e, w') \<Rightarrow> if e = PythonException then run_ops b env xs w' else (Some e, w'))"

subsection \<open>Notions used in the statements\<close>

text \<open>A pointer is valid when it points to an object, live when that object has a positive
  reference count, dead when the object is there with no reference left.\<close>

definition valid :: "'c world \<Rightarrow> ptr \<Rightarrow> bool" where
  "valid w p = (case p of None \<Rightarrow> False | Some a \<Rightarrow> heap w a \<noteq> None)"

definition null_or_valid :: "'c world \<Rightarrow> ptr \<Rightarrow> bool" where
  "null_or_valid w p = (p = None \<or> valid w p)"

definition live :: "'c world \<Rightarrow> ptr \<Rightarrow> bool" where
  "live w p =
     (case p of
        None \<Rightarrow> False
      | Some a \<Rightarrow> (case heap w a of None \<Rightarrow> False | Some obj \<Rightarrow> 0 < obj_refcnt obj))"

definition dead :: "'c world \<Rightarrow> ptr \<Rightarrow> bool" where
  "dead w p =
     (case p of
        None \<Rightarrow> False
      | Some a \<Rightarrow> (case heap w a of None \<Rightarrow> False | Some obj \<Rightarrow> obj_refcnt obj \<le> 0))"



text \<open>The reference count stored at an address, and how many of the three pointers of the
  error indicator point to it: these are the references the indicator owns.\<close>

definition refcount :: "'c world \<Rightarrow> addr \<Rightarrow> int" where
  "refcount w a = (case heap w a of None \<Rightarrow> 0 | Some obj \<Rightarrow> obj_refcnt obj)"

definition hits :: "ptr \<Rightarrow> addr \<Rightarrow> int" where
  "hits p a = (if p = Some a then 1 else 0)"

definition indicator_refs :: "'c world \<Rightarrow> addr \<Rightarrow> int" where
  "indicator_refs w a = hits (curexc_type w) a + hits (curexc_value w) a + hits (curexc_traceback w) a"

text \<open>
  Whether a pointer refers to a traceback object, the traceback the runtime installs for a
  given traceback argument, and the one it releases in its place.
\<close>

definition is_traceback :: "build \<Rightarrow> 'c world \<Rightarrow> ptr \<Rightarrow> bool" where
  "is_traceback b w p =
     (case p of
        None \<Rightarrow> False
      | Some a \<Rightarrow>
          (case heap w a of
             None \<Rightarrow> False
           | Some obj \<Rightarrow> obj_type obj = Some (PyTraceBack_Type b)))"

definition installed_traceback :: "build \<Rightarrow> 'c world \<Rightarrow> ptr \<Rightarrow> ptr" where
  "installed_traceback b w tb = (if is_traceback b w tb then tb else None)"

definition dropped_traceback :: "build \<Rightarrow> 'c world \<Rightarrow> ptr \<Rightarrow> ptr" where
  "dropped_traceback b w tb = (if is_traceback b w tb then None else tb)"

text \<open>What an observer reads from the generator at an address.\<close>

definition status_of :: "addr \<Rightarrow> 'c world \<Rightarrow> Generator_Status option" where
  "status_of a w = map_option m_status (generator_at (Some a) w)"

definition name_of :: "addr \<Rightarrow> 'c world \<Rightarrow> ptr option" where
  "name_of a w = map_option m_name (generator_at (Some a) w)"

definition yielded_of :: "addr \<Rightarrow> 'c world \<Rightarrow> ptr" where
  "yielded_of a w = (case generator_at (Some a) w of None \<Rightarrow> None | Some g \<Rightarrow> m_yielded g)"

text \<open>The order of the life cycle.\<close>

fun rank :: "Generator_Status \<Rightarrow> nat" where
  "rank status_Unused = 0"
| "rank status_Running = 1"
| "rank status_Finished = 2"

text \<open>
  A pending error can be raised when the kind is live and every other pointer that gets a
  reference added or released is \<open>NULL\<close> or valid.
\<close>

definition pending :: "ptr \<Rightarrow> 'c world \<Rightarrow> bool" where
  "pending p w =
     (case generator_at p w of
        None \<Rightarrow> False
      | Some g \<Rightarrow>
          live w (m_exception_type g) \<and>
          null_or_valid w (m_exception_value g) \<and>
          null_or_valid w (m_exception_tb g) \<and>
          null_or_valid w (curexc_type w) \<and>
          null_or_valid w (curexc_value w) \<and>
          null_or_valid w (curexc_traceback w))"

subsection \<open>Auxiliary state transformers\<close>

text \<open>The effect of adding \<open>n\<close> references, of a field assignment, and of the whole raising
  branch of \<open>CHECK_EXCEPTION\<close>, as functions on the state.\<close>

definition bump :: "int \<Rightarrow> ptr \<Rightarrow> 'c world \<Rightarrow> 'c world" where
  "bump n p w =
     (case p of
        None \<Rightarrow> w
      | Some a \<Rightarrow>
          (case heap w a of
             None \<Rightarrow> w
           | Some obj \<Rightarrow> w\<lparr>heap := (heap w)(a \<mapsto> obj_add_refcnt n obj)\<rparr>))"

definition put :: "ptr \<Rightarrow> (Nuitka_GeneratorObject \<Rightarrow> Nuitka_GeneratorObject) \<Rightarrow> 'c world \<Rightarrow> 'c world" where
  "put p f w = snd (assign p f w)"

definition raised :: "build \<Rightarrow> ptr \<Rightarrow> 'c world \<Rightarrow> 'c world" where
  "raised b p w =
     (case generator_at p w of
        None \<Rightarrow> w
      | Some g \<Rightarrow>
          put p (\<lambda>g. g\<lparr>m_exception_type := None\<rparr>)
            (bump (- 1) (curexc_traceback w) (bump (- 1) (curexc_value w) (bump (- 1) (curexc_type w)
              ((bump (- 1) (dropped_traceback b w (m_exception_tb g))
                 (bump 1 (m_exception_tb g) (bump 1 (m_exception_value g)
                   (bump 1 (m_exception_type g) w))))
                 \<lparr>curexc_type := m_exception_type g,
                  curexc_value := m_exception_value g,
                  curexc_traceback := installed_traceback b w (m_exception_tb g)\<rparr>)))))"

definition norc :: "Nuitka_GeneratorObject \<Rightarrow> Nuitka_GeneratorObject" where
  "norc g = g\<lparr>ob_refcnt := 0\<rparr>"

text \<open>An observation of a generator that does not look at the three fields the header
  writes, and an action that leaves an observation of the state as it is.\<close>

definition insensitive :: "(Nuitka_GeneratorObject \<Rightarrow> 'x) \<Rightarrow> bool" where
  "insensitive proj \<longleftrightarrow>
     (\<forall>g n y t. proj (g\<lparr>ob_refcnt := n\<rparr>) = proj g \<and>
                proj (g\<lparr>m_yielded := y\<rparr>) = proj g \<and>
                proj (g\<lparr>m_exception_type := t\<rparr>) = proj g)"

definition field_of :: "(Nuitka_GeneratorObject \<Rightarrow> 'x) \<Rightarrow> addr \<Rightarrow> 'c world \<Rightarrow> 'x option" where
  "field_of proj a w = map_option proj (generator_at (Some a) w)"

definition untouched :: "('c world \<Rightarrow> 'x) \<Rightarrow> bool" where
  "untouched obs \<longleftrightarrow>
     (\<forall>w n p y t v tb.
        obs (bump n p w) = obs w \<and>
        obs (put p (\<lambda>g. g\<lparr>m_yielded := y\<rparr>) w) = obs w \<and>
        obs (put p (\<lambda>g. g\<lparr>m_exception_type := t\<rparr>) w) = obs w \<and>
        obs (w\<lparr>curexc_type := t, curexc_value := v, curexc_traceback := tb\<rparr>) = obs w)"

definition keeps :: "('c world \<Rightarrow> 'x) \<Rightarrow> ('c, 'a) action \<Rightarrow> bool" where
  "keeps obs m \<longleftrightarrow> (\<forall>w. obs (snd (m w)) = obs w)"

subsection \<open>The life cycle\<close>

text \<open>
  Modelled from the spec: the operations that move the status are in the implementation
  file of the generator, which is not part of the sources: the caller's \<open>resume\<close>,
  \<open>throwInto\<close> and \<open>close\<close>, and the end of the producer. Section 4.2 of the spec gives
  their transitions. A first \<open>resume\<close> takes \<open>Unused\<close> to \<open>Running\<close>, a later one
  leaves \<open>Running\<close>, and on a finished generator it fails with no change of state.
  \<open>throwInto\<close> is a \<open>resume\<close> that populates the pending error first, but on an unused
  generator it raises at once and leaves the status at \<open>Finished\<close>. \<open>close\<close> takes
  \<open>Unused\<close> and \<open>Running\<close> to \<open>Finished\<close>, injecting its cancellation error into a
  suspended producer, and does nothing on a finished generator. A producer that returns or
  raises takes \<open>Running\<close> to \<open>Finished\<close>. A value sent with \<open>resume\<close> is written to
  the pending-value slot. (The prose of the same section lets \<open>close\<close> leave an unused
  generator alone: that is no move at all.)
\<close>

datatype trigger =
    Resume ptr
  | Throw_Into ptr ptr ptr
  | Close ptr ptr ptr
  | Producer_Ends

fun next_status :: "trigger \<Rightarrow> Generator_Status \<Rightarrow> Generator_Status" where
  "next_status (Resume v) status_Unused = status_Running"
| "next_status (Resume v) status_Running = status_Running"
| "next_status (Resume v) status_Finished = status_Finished"
| "next_status (Throw_Into t v tb) status_Unused = status_Finished"
| "next_status (Throw_Into t v tb) status_Running = status_Running"
| "next_status (Throw_Into t v tb) status_Finished = status_Finished"
| "next_status (Close t v tb) status_Unused = status_Finished"
| "next_status (Close t v tb) status_Running = status_Finished"
| "next_status (Close t v tb) status_Finished = status_Finished"
| "next_status Producer_Ends status_Unused = status_Unused"
| "next_status Producer_Ends status_Running = status_Finished"
| "next_status Producer_Ends status_Finished = status_Finished"

fun caller_writes :: "trigger \<Rightarrow> Nuitka_GeneratorObject \<Rightarrow> Nuitka_GeneratorObject" where
  "caller_writes (Resume v) g =
     (if m_status g = status_Finished then g else g\<lparr>m_yielded := v\<rparr>)"
| "caller_writes (Throw_Into t v tb) g =
     (if m_status g = status_Running
      then g\<lparr>m_exception_type := t, m_exception_value := v, m_exception_tb := tb\<rparr> else g)"
| "caller_writes (Close t v tb) g =
     (if m_status g = status_Running
      then g\<lparr>m_exception_type := t, m_exception_value := v, m_exception_tb := tb\<rparr> else g)"
| "caller_writes Producer_Ends g = g"

definition fire :: "addr \<Rightarrow> trigger \<Rightarrow> 'c world \<Rightarrow> 'c world" where
  "fire a t w =
     put (Some a) (\<lambda>g. (caller_writes t g)\<lparr>m_status := next_status t (m_status g)\<rparr>) w"

text \<open>
  The caller as the table lets it act. Its script is in its own memory: each time the
  producer yields, the caller performs the next entry of the script, a list of operations
  on any generators, and resumes the producer; with the script used up it never resumes.
\<close>

type_synonym script = "(addr \<times> trigger) list list"

definition scripted_caller :: "script env" where
  "scripted_caller f w =
     (case other_stacks w of
        [] \<Rightarrow> None
      | entry # rest \<Rightarrow> Some (fold (\<lambda>(a, t). fire a t) entry (w\<lparr>other_stacks := rest\<rparr>)))"

text \<open>A run of the whole: operations of the header on the producer's side, operations of
  the life cycle on the caller's side, in any order.\<close>

datatype step = Producer operation | Caller addr trigger

fun run_steps :: "build \<Rightarrow> step list \<Rightarrow> script world \<Rightarrow> signal option \<times> script world" where
  "run_steps b [] w = (None, w)"
| "run_steps b (Caller a t # xs) w = run_steps b xs (fire a t w)"
| "run_steps b (Producer x # xs) w =
     (case run_op b scripted_caller x w of
        (Inr _, w') \<Rightarrow> run_steps b xs w'
      | (Inl e, w') \<Rightarrow> if e = PythonException then run_steps b xs w' else (Some e, w'))"

text \<open>A status is not before another in the order of the life cycle.\<close>

definition not_before :: "Generator_Status option \<Rightarrow> Generator_Status option \<Rightarrow> bool" where
  "not_before x y \<longleftrightarrow> (case x of None \<Rightarrow> True | Some s \<Rightarrow> (case y of None \<Rightarrow> False | Some s' \<Rightarrow> rank s \<le> rank s'))"

subsection \<open>Concrete states\<close>

text \<open>A generator at address 6 in a heap of eight objects, the object at 5 dead, the one
  at 7 standing for \<open>None\<close> and the one at 8 a traceback; and the same state with an
  error pending in the generator, with no traceback, with the traceback at 8, and with
  \<open>None\<close> in the place of the traceback.\<close>

definition example_generator :: Nuitka_GeneratorObject where
  "example_generator =
     \<lparr>ob_refcnt = 1, ob_type = Some 100, m_name = Some 10,
      m_yielder_context = 12, m_caller_context = 11,
      m_context = None, m_cleanup = None, m_weakrefs = None, m_running = 1, m_code = None,
      m_yielded = None,
      m_exception_type = None, m_exception_value = None, m_exception_tb = None,
      m_frame = None, m_code_object = None, m_status = status_Running\<rparr>"

definition example_world :: "ptr list world" where
  "example_world =
     \<lparr>heap = [6 \<mapsto> Generator example_generator,
              2 \<mapsto> Object \<lparr>ob_refcnt = 1, ob_type = Some 101\<rparr>,
              3 \<mapsto> Object \<lparr>ob_refcnt = 5, ob_type = Some 102\<rparr>,
              4 \<mapsto> Object \<lparr>ob_refcnt = 1, ob_type = Some 3\<rparr>,
              5 \<mapsto> Object \<lparr>ob_refcnt = 0, ob_type = Some 101\<rparr>,
              7 \<mapsto> Object \<lparr>ob_refcnt = 100, ob_type = Some 104\<rparr>,
              8 \<mapsto> Object \<lparr>ob_refcnt = 1, ob_type = Some 105\<rparr>,
              10 \<mapsto> Object \<lparr>ob_refcnt = 2, ob_type = Some 103\<rparr>],
      curexc_type = None, curexc_value = None, curexc_traceback = None,
      other_stacks = []\<rparr>"

definition throwing_generator :: Nuitka_GeneratorObject where
  "throwing_generator = example_generator\<lparr>m_exception_type := Some 3, m_exception_value := Some 4\<rparr>"

definition throwing_world :: "ptr list world" where
  "throwing_world = example_world\<lparr>heap := (heap example_world)(6 \<mapsto> Generator throwing_generator)\<rparr>"





definition rethrowing_world :: "ptr list world" where
  "rethrowing_world = throwing_world\<lparr>curexc_type := Some 3\<rparr>"

text \<open>Callers: one that resumes the producer at once, one that never does, one that
  sends a value and one that throws an error into the generator at an address.\<close>

definition resume_at_once :: "'c env" where
  "resume_at_once f w = Some w"

definition never_resume :: "'c env" where
  "never_resume f w = None"

definition resume_sending :: "addr \<Rightarrow> ptr \<Rightarrow> 'c env" where
  "resume_sending a v f w = Some (put (Some a) (\<lambda>g. g\<lparr>m_yielded := v\<rparr>) w)"

definition resume_throwing :: "addr \<Rightarrow> ptr \<Rightarrow> ptr \<Rightarrow> ptr \<Rightarrow> 'c env" where
  "resume_throwing a t v tb f w =
     Some (put (Some a)
       (\<lambda>g. g\<lparr>m_exception_type := t, m_exception_value := v, m_exception_tb := tb\<rparr>) w)"

text \<open>A build for a runtime older than 2.7 and one for 2.7.\<close>

definition old_build :: build where
  "old_build = \<lparr>PYTHON_VERSION = 260, Py_None = 7, Nuitka_Generator_Type = 100, PyTraceBack_Type = 105\<rparr>"

definition new_build :: build where
  "new_build = \<lparr>PYTHON_VERSION = 270, Py_None = 7, Nuitka_Generator_Type = 100, PyTraceBack_Type = 105\<rparr>"

text \<open>A body that uses every operation of the header.\<close>

definition example_body :: "operation list" where
  "example_body =
     [Yield (Some 6) (Some 2), Check_Exception (Some 6), Get_Name (Some 6),
      Type_Check (Some 6), Yield_Return (Some 6) (Some 3), Yield (Some 6) (Some 4)]"

text \<open>A caller that notes, each time it gets control, what it finds in the slot of the
  generator at an address, and resumes the producer.\<close>

definition observing :: "addr \<Rightarrow> (ptr list) env" where
  "observing a f w = Some (w\<lparr>other_stacks := other_stacks w @ [yielded_of a w]\<rparr>)"

text \<open>A generator not yet used, with a caller whose script sends one value at the first
  yield; and a run in which the generator is started, yields, is resumed, checks for an
  error, reads its name, ends, and is resumed once more.\<close>

definition unused_world :: "script world" where
  "unused_world =
     \<lparr>heap = (heap example_world)(6 \<mapsto> Generator (example_generator\<lparr>m_status := status_Unused\<rparr>)),
      curexc_type = None, curexc_value = None, curexc_traceback = None,
      other_stacks = [[(6, Resume (Some 4))]]\<rparr>"

definition example_run :: "step list" where
  "example_run =
     [Caller 6 (Resume (Some 7)), Producer (Yield (Some 6) (Some 2)),
      Producer (Check_Exception (Some 6)), Producer (Get_Name (Some 6)),
      Caller 6 Producer_Ends, Caller 6 (Resume (Some 7))]"

section \<open>Properties of the primitives\<close>

lemma Py_INCREF_bump: "valid w p \<Longrightarrow> Py_INCREF p w = (Inr (), bump 1 p w)"
  by (auto simp: valid_def Py_INCREF_def bump_def split: option.splits)

lemma Py_INCREF_invalid: "\<not> valid w p \<Longrightarrow> Py_INCREF p w = (Inl InvalidAccess, w)"
  by (auto simp: valid_def Py_INCREF_def split: option.splits)

lemma Py_XINCREF_bump: "p = None \<or> valid w p \<Longrightarrow> Py_XINCREF p w = (Inr (), bump 1 p w)"
  by (auto simp: valid_def Py_XINCREF_def Py_INCREF_def ret_def bump_def split: option.splits)

lemma Py_XDECREF_bump: "p = None \<or> valid w p \<Longrightarrow> Py_XDECREF p w = (Inr (), bump (- 1) p w)"
  by (auto simp: valid_def Py_XDECREF_def Py_DECREF_def ret_def bump_def split: option.splits)

lemma Py_XDECREF_invalid: "\<not> (p = None \<or> valid w p) \<Longrightarrow> Py_XDECREF p w = (Inl InvalidAccess, w)"
  by (auto simp: valid_def Py_XDECREF_def Py_DECREF_def ret_def split: option.splits)

lemma heap_bump_None [simp]: "heap (bump n p w) a = None \<longleftrightarrow> heap w a = None"
  by (auto simp: bump_def split: option.splits)

lemma valid_bump [simp]: "valid (bump n p w) q = valid w q"
  by (auto simp: valid_def split: option.splits)

lemma generator_at_bump:
  "generator_at q (bump n p w) =
     map_option (\<lambda>g. g\<lparr>ob_refcnt := ob_refcnt g + (if p = q then n else 0)\<rparr>) (generator_at q w)"
  by (auto simp: generator_at_def bump_def split: option.splits object.splits)

lemma live_valid: "live w p \<Longrightarrow> valid w p"
  by (auto simp: live_def valid_def split: option.splits)

lemma assertObject_live: "live w p \<Longrightarrow> assertObject p w = (Inr (), w)"
  by (auto simp: live_def assertObject_def split: option.splits)

lemma assertObject_not_live: "\<not> live w p \<Longrightarrow> \<exists>e. assertObject p w = (Inl e, w) \<and> e \<noteq> PythonException"
  by (auto simp: live_def assertObject_def split: option.splits)

lemma deref_Some: "generator_at p w = Some g \<Longrightarrow> deref p k w = k g w"
  by (simp add: deref_def)

lemma deref_None: "generator_at p w = None \<Longrightarrow> deref p k w = (Inl InvalidAccess, w)"
  by (simp add: deref_def)

lemma then_do_Inr: "m w = (Inr x, w') \<Longrightarrow> then_do m n w = n w'"
  by (simp add: then_do_def then_with_def)

lemma then_do_Inl: "m w = (Inl e, w') \<Longrightarrow> then_do m n w = (Inl e, w')"
  by (simp add: then_do_def then_with_def)

lemma generator_at_indicator [simp]:
  "generator_at p (w\<lparr>curexc_type := t, curexc_value := v, curexc_traceback := tb\<rparr>) = generator_at p w"
  by (simp add: generator_at_def split: option.splits)

lemma valid_indicator [simp]:
  "valid (w\<lparr>curexc_type := t, curexc_value := v, curexc_traceback := tb\<rparr>) p = valid w p"
  by (simp add: valid_def split: option.splits)

lemma null_or_valid_bump [simp]: "null_or_valid (bump n p w) q = null_or_valid w q"
  by (simp add: null_or_valid_def)

lemma null_or_valid_indicator [simp]:
  "null_or_valid (w\<lparr>curexc_type := t, curexc_value := v, curexc_traceback := tb\<rparr>) p = null_or_valid w p"
  by (simp add: null_or_valid_def)

lemma then_do_apply:
  "then_do m n w = (case m w of (Inl e, w') \<Rightarrow> (Inl e, w') | (Inr x, w') \<Rightarrow> n w')"
  by (simp add: then_do_def then_with_def)

lemma Py_XDECREF_ok: "null_or_valid w p \<Longrightarrow> Py_XDECREF p w = (Inr (), bump (- 1) p w)"
  by (simp add: null_or_valid_def Py_XDECREF_bump)

lemma Py_XDECREF_bad: "\<not> null_or_valid w p \<Longrightarrow> Py_XDECREF p w = (Inl InvalidAccess, w)"
  by (simp add: null_or_valid_def Py_XDECREF_invalid)

lemma Py_XINCREF_ok: "null_or_valid w p \<Longrightarrow> Py_XINCREF p w = (Inr (), bump 1 p w)"
  by (simp add: null_or_valid_def Py_XINCREF_bump)

lemma Py_XINCREF_bad: "\<not> null_or_valid w p \<Longrightarrow> Py_XINCREF p w = (Inl InvalidAccess, w)"
  by (auto simp: null_or_valid_def valid_def Py_XINCREF_def Py_INCREF_def split: option.splits)

lemma indicator_bump [simp]:
  "curexc_type (bump n p w) = curexc_type w"
  "curexc_value (bump n p w) = curexc_value w"
  "curexc_traceback (bump n p w) = curexc_traceback w"
  "other_stacks (bump n p w) = other_stacks w"
  by (simp_all add: bump_def split: option.splits)

lemma obj_refcnt_add [simp]: "obj_refcnt (obj_add_refcnt n obj) = obj_refcnt obj + n"
  by (cases obj) simp_all

lemma obj_type_add [simp]: "obj_type (obj_add_refcnt n obj) = obj_type obj"
  by (cases obj) simp_all

lemma then_with_Inr: "m w = (Inr x, w') \<Longrightarrow> then_with m k w = k x w'"
  by (simp add: then_with_def)

lemma bump_None [simp]: "bump n None w = w"
  by (simp add: bump_def)

lemma is_traceback_bump [simp]: "is_traceback b (bump n p w) q = is_traceback b w q"
  by (cases q) (auto simp: is_traceback_def bump_def split: option.splits)

lemma installed_traceback_bump [simp]:
  "installed_traceback b (bump n p w) q = installed_traceback b w q"
  by (simp add: installed_traceback_def)

lemma dropped_traceback_bump [simp]:
  "dropped_traceback b (bump n p w) q = dropped_traceback b w q"
  by (simp add: dropped_traceback_def)

lemma null_or_valid_dropped: "null_or_valid w tb \<Longrightarrow> null_or_valid w (dropped_traceback b w tb)"
  by (simp add: dropped_traceback_def null_or_valid_def)

lemma hits_traceback:
  "hits (installed_traceback b w tb) a + hits (dropped_traceback b w tb) a = hits tb a"
  by (simp add: installed_traceback_def dropped_traceback_def hits_def)

lemma PyTraceBack_Check_valid:
  "valid w tb \<Longrightarrow> PyTraceBack_Check b tb w = (Inr (is_traceback b w tb), w)"
  by (auto simp: PyTraceBack_Check_def Py_TYPE_def then_with_def ret_def valid_def
      is_traceback_def split: option.splits)

lemma PyTraceBack_Check_invalid:
  "tb \<noteq> None \<Longrightarrow> \<not> valid w tb \<Longrightarrow> PyTraceBack_Check b tb w = (Inl InvalidAccess, w)"
  by (auto simp: PyTraceBack_Check_def Py_TYPE_def then_with_def valid_def split: option.splits)

lemma Py_DECREF_bump: "valid w p \<Longrightarrow> Py_DECREF p w = (Inr (), bump (- 1) p w)"
  by (auto simp: valid_def Py_DECREF_def bump_def split: option.splits)

lemma traceback_normalised:
  assumes "null_or_valid w tb"
  shows "(if tb \<noteq> None then
            then_with (PyTraceBack_Check b tb) (\<lambda>is_tb.
              if \<not> is_tb then then_do (Py_DECREF tb) (ret None) else ret tb)
          else ret tb) w
         = (Inr (installed_traceback b w tb), bump (- 1) (dropped_traceback b w tb) w)"
proof (cases "tb = None")
  case True
  then show ?thesis
    by (simp add: ret_def installed_traceback_def dropped_traceback_def is_traceback_def)
next
  case False
  with assms have v: "valid w tb" by (simp add: null_or_valid_def)
  show ?thesis
    using False
    by (simp add: then_with_def PyTraceBack_Check_valid [OF v] then_do_apply
        Py_DECREF_bump [OF v] ret_def installed_traceback_def dropped_traceback_def)
qed

lemma PyErr_Restore_installs:
  assumes "null_or_valid w tb"
  shows "PyErr_Restore b t v tb w =
     then_do (Py_XDECREF (curexc_type w))
       (then_do (Py_XDECREF (curexc_value w)) (Py_XDECREF (curexc_traceback w)))
       ((bump (- 1) (dropped_traceback b w tb) w)
          \<lparr>curexc_type := t, curexc_value := v,
           curexc_traceback := installed_traceback b w tb\<rparr>)"
proof -
  note n = traceback_normalised [OF assms, of b]
  show ?thesis
    unfolding PyErr_Restore_def
    by (rule trans [OF then_with_Inr]) (rule n, simp add: Let_def)
qed

lemma PyErr_Restore_ok:
  assumes "null_or_valid w tb"
    and "null_or_valid w (curexc_type w)" and "null_or_valid w (curexc_value w)"
    and "null_or_valid w (curexc_traceback w)"
  shows "PyErr_Restore b t v tb w =
     (Inr (), bump (- 1) (curexc_traceback w) (bump (- 1) (curexc_value w) (bump (- 1) (curexc_type w)
        ((bump (- 1) (dropped_traceback b w tb) w)
           \<lparr>curexc_type := t, curexc_value := v,
            curexc_traceback := installed_traceback b w tb\<rparr>))))"
  using assms(2-4)
  by (simp add: PyErr_Restore_installs [OF assms(1)] then_do_apply Py_XDECREF_ok)

lemma PyErr_Restore_bad:
  assumes "null_or_valid w tb"
    and "\<not> (null_or_valid w (curexc_type w) \<and> null_or_valid w (curexc_value w) \<and>
      null_or_valid w (curexc_traceback w))"
  shows "fst (PyErr_Restore b t v tb w) = Inl InvalidAccess"
  using assms(2)
  apply (cases "null_or_valid w (curexc_type w)")
   apply (cases "null_or_valid w (curexc_value w)")
    apply (simp_all add: PyErr_Restore_installs [OF assms(1)] then_do_apply Py_XDECREF_ok
      Py_XDECREF_bad)
  done

lemma generator_at_bump_field:
  "generator_at q (bump n p w) = None \<longleftrightarrow> generator_at q w = None"
  by (simp add: generator_at_bump)

lemma assign_ok: "generator_at p w \<noteq> None \<Longrightarrow> assign p f w = (Inr (), put p f w)"
  by (auto simp: put_def assign_def generator_at_def split: option.splits)

lemma assign_bad: "generator_at p w = None \<Longrightarrow> assign p f w = (Inl InvalidAccess, w)"
  by (auto simp: assign_def generator_at_def split: option.splits)

lemma CHECK_EXCEPTION_none:
  "generator_at p w = Some g \<Longrightarrow> m_exception_type g = None \<Longrightarrow> CHECK_EXCEPTION b p w = (Inr (), w)"
  by (simp add: CHECK_EXCEPTION_def deref_Some ret_def)

lemma CHECK_EXCEPTION_invalid:
  "generator_at p w = None \<Longrightarrow> CHECK_EXCEPTION b p w = (Inl InvalidAccess, w)"
  by (simp add: CHECK_EXCEPTION_def deref_None)

lemma CHECK_EXCEPTION_raise:
  assumes "pending p w"
  shows "CHECK_EXCEPTION b p w = (Inl PythonException, raised b p w)"
proof -
  from assms obtain g where g: "generator_at p w = Some g"
    and t: "live w (m_exception_type g)"
    and v: "null_or_valid w (m_exception_value g)"
    and tb: "null_or_valid w (m_exception_tb g)"
    and old: "null_or_valid w (curexc_type w)" "null_or_valid w (curexc_value w)"
      "null_or_valid w (curexc_traceback w)"
    by (auto simp: pending_def split: option.splits)
  from t have tn: "m_exception_type g \<noteq> None" by (auto simp: live_def split: option.splits)
  from t have tv: "valid w (m_exception_type g)" by (rule live_valid)
  show ?thesis
    using g tn
    by (simp add: CHECK_EXCEPTION_def raised_def deref_def then_do_apply assertObject_live [OF t]
        Py_INCREF_bump [OF tv] generator_at_bump Py_XINCREF_ok v tb PyErr_Restore_ok old
        assign_ok fail_def)
qed

lemma assertObject_dead: "p = None \<or> dead w p \<Longrightarrow> assertObject p w = (Inl AssertionFailure, w)"
  by (auto simp: dead_def assertObject_def split: option.splits)

lemma assertObject_cases:
  "assertObject p w = (Inr (), w) \<and> live w p \<or>
   assertObject p w = (Inl AssertionFailure, w) \<and> (p = None \<or> dead w p) \<or>
   assertObject p w = (Inl InvalidAccess, w) \<and> p \<noteq> None \<and> \<not> valid w p"
  by (auto simp: dead_def live_def valid_def assertObject_def split: option.splits)

lemma CHECK_EXCEPTION_not_pending:
  assumes "\<not> pending p w"
  shows "fst (CHECK_EXCEPTION b p w) \<noteq> Inl PythonException"
proof (cases "generator_at p w")
  case None
  then show ?thesis by (simp add: CHECK_EXCEPTION_invalid)
next
  case (Some g)
  show ?thesis
  proof (cases "m_exception_type g = None")
    case True
    with Some show ?thesis by (simp add: CHECK_EXCEPTION_none)
  next
    case tn: False
    show ?thesis
    proof (cases "live w (m_exception_type g)")
      case False
      then obtain e where "assertObject (m_exception_type g) w = (Inl e, w)" "e \<noteq> PythonException"
        using assertObject_not_live by blast
      with Some tn show ?thesis
        by (simp add: CHECK_EXCEPTION_def deref_def then_do_apply)
    next
      case t: True
      note tv = live_valid [OF t]
      show ?thesis
      proof (cases "null_or_valid w (m_exception_value g)")
        case False
        with Some tn show ?thesis
          by (simp add: CHECK_EXCEPTION_def deref_def then_do_apply assertObject_live [OF t]
              Py_INCREF_bump [OF tv] generator_at_bump Py_XINCREF_bad)
      next
        case v: True
        show ?thesis
        proof (cases "null_or_valid w (m_exception_tb g)")
          case False
          with Some tn v show ?thesis
            by (simp add: CHECK_EXCEPTION_def deref_def then_do_apply assertObject_live [OF t]
                Py_INCREF_bump [OF tv] generator_at_bump Py_XINCREF_ok Py_XINCREF_bad)
        next
          case tb: True
          from assms Some t v tb
          have old: "\<not> (null_or_valid w (curexc_type w) \<and> null_or_valid w (curexc_value w) \<and>
               null_or_valid w (curexc_traceback w))"
            by (simp add: pending_def)
          let ?w3 = "bump 1 (m_exception_tb g) (bump 1 (m_exception_value g) (bump 1 (m_exception_type g) w))"
          have "fst (PyErr_Restore b (m_exception_type g) (m_exception_value g) (m_exception_tb g) ?w3)
                  = Inl InvalidAccess"
            using old tb by (intro PyErr_Restore_bad) simp_all
          then obtain w4 where
            "PyErr_Restore b (m_exception_type g) (m_exception_value g) (m_exception_tb g) ?w3
               = (Inl InvalidAccess, w4)"
            by (cases "PyErr_Restore b (m_exception_type g) (m_exception_value g) (m_exception_tb g) ?w3") simp
          with Some tn v tb show ?thesis
            by (simp add: CHECK_EXCEPTION_def deref_def then_do_apply assertObject_live [OF t]
                Py_INCREF_bump [OF tv] generator_at_bump Py_XINCREF_ok)
        qed
      qed
    qed
  qed
qed

lemma CHECK_EXCEPTION_raises_iff:
  "fst (CHECK_EXCEPTION b p w) = Inl PythonException \<longleftrightarrow> pending p w"
  using CHECK_EXCEPTION_not_pending [of p w b] CHECK_EXCEPTION_raise [of p w b] by auto

lemma put_eq:
  "put p f w =
     (case p of
        None \<Rightarrow> w
      | Some a \<Rightarrow>
          (case generator_at p w of
             None \<Rightarrow> w
           | Some g \<Rightarrow> w\<lparr>heap := (heap w)(a \<mapsto> Generator (f g))\<rparr>))"
  by (simp add: put_def assign_def split: option.splits)

lemma indicator_put [simp]:
  "curexc_type (put p f w) = curexc_type w"
  "curexc_value (put p f w) = curexc_value w"
  "curexc_traceback (put p f w) = curexc_traceback w"
  "other_stacks (put p f w) = other_stacks w"
  by (simp_all add: put_eq split: option.splits)

lemma heap_put_None [simp]: "heap (put p f w) a = None \<longleftrightarrow> heap w a = None"
  by (auto simp: put_eq generator_at_def split: option.splits object.splits)

lemma generator_at_put:
  "generator_at q (put p f w) = (if p = q then map_option f (generator_at q w) else generator_at q w)"
  by (auto simp: put_eq generator_at_def split: option.splits object.splits)

lemma refcount_bump:
  "refcount (bump n p w) a = refcount w a + (if p = Some a \<and> heap w a \<noteq> None then n else 0)"
  by (auto simp: refcount_def bump_def split: option.splits)

lemma refcount_indicator [simp]:
  "refcount (w\<lparr>curexc_type := t, curexc_value := v, curexc_traceback := tb\<rparr>) a = refcount w a"
  by (simp add: refcount_def)

lemma refcount_put:
  "(\<And>g. ob_refcnt (f g) = ob_refcnt g) \<Longrightarrow> refcount (put p f w) a = refcount w a"
  by (auto simp: refcount_def put_eq generator_at_def split: option.splits object.splits)

lemma heap_indicator [simp]:
  "heap (w\<lparr>curexc_type := t, curexc_value := v, curexc_traceback := tb\<rparr>) = heap w"
  by simp



lemma raised_other_stacks: "other_stacks (raised b p w) = other_stacks w"
  by (simp add: raised_def split: option.splits)

lemma norc_bump: "map_option norc (generator_at q (bump n p w)) = map_option norc (generator_at q w)"
  by (cases "generator_at q w") (simp_all add: generator_at_bump norc_def)

lemma norc_eqD: "norc g' = norc g \<Longrightarrow> g' = g\<lparr>ob_refcnt := ob_refcnt g'\<rparr>"
proof -
  assume "norc g' = norc g"
  then have "(norc g')\<lparr>ob_refcnt := ob_refcnt g'\<rparr> = (norc g)\<lparr>ob_refcnt := ob_refcnt g'\<rparr>"
    by simp
  then show ?thesis by (simp add: norc_def)
qed

lemma raised_norc:
  "generator_at p w \<noteq> None \<Longrightarrow>
   map_option norc (generator_at q (raised b p w)) =
     map_option norc
       (if p = q then map_option (\<lambda>g. g\<lparr>m_exception_type := None\<rparr>) (generator_at q w)
        else generator_at q w)"
proof -
  assume "generator_at p w \<noteq> None"
  then obtain g where g: "generator_at p w = Some g" by auto
  let ?w1 = "bump 1 (m_exception_tb g) (bump 1 (m_exception_value g) (bump 1 (m_exception_type g) w))"
  let ?w2 = "(bump (- 1) (dropped_traceback b w (m_exception_tb g)) ?w1)
                 \<lparr>curexc_type := m_exception_type g, curexc_value := m_exception_value g,
                  curexc_traceback := installed_traceback b w (m_exception_tb g)\<rparr>"
  let ?w3 = "bump (- 1) (curexc_traceback w) (bump (- 1) (curexc_value w) (bump (- 1) (curexc_type w) ?w2))"
  have 3: "map_option norc (generator_at q ?w3) = map_option norc (generator_at q w)"
    by (simp add: norc_bump)
  have r: "raised b p w = put p (\<lambda>g. g\<lparr>m_exception_type := None\<rparr>) ?w3"
    using g by (simp add: raised_def)
  have c: "\<And>x. norc (x\<lparr>m_exception_type := None\<rparr>) = (norc x)\<lparr>m_exception_type := None\<rparr>"
    by (simp add: norc_def)
  show ?thesis
  proof (cases "p = q")
    case False
    then show ?thesis unfolding r using 3 by (simp add: generator_at_put)
  next
    case True
    have "map_option norc (generator_at q (raised b p w))
            = map_option (\<lambda>g. g\<lparr>m_exception_type := None\<rparr>) (map_option norc (generator_at q ?w3))"
      unfolding r using True by (simp add: generator_at_put option.map_comp o_def c)
    also have "\<dots> = map_option (\<lambda>g. g\<lparr>m_exception_type := None\<rparr>) (map_option norc (generator_at q w))"
      by (simp only: 3)
    finally show ?thesis using True by (simp add: option.map_comp o_def c)
  qed
qed

lemma refcount_bump_valid:
  "null_or_valid w p \<Longrightarrow> refcount (bump n p w) a = refcount w a + n * hits p a"
  by (auto simp: refcount_def bump_def hits_def null_or_valid_def valid_def split: option.splits)

lemma raised_refcount:
  assumes "pending p w"
  shows "refcount (raised b p w) a - indicator_refs (raised b p w) a = refcount w a - indicator_refs w a"
proof -
  from assms obtain g where g: "generator_at p w = Some g"
    and t: "live w (m_exception_type g)"
    and v: "null_or_valid w (m_exception_value g)"
    and tb: "null_or_valid w (m_exception_tb g)"
    and old: "null_or_valid w (curexc_type w)" "null_or_valid w (curexc_value w)"
      "null_or_valid w (curexc_traceback w)"
    by (auto simp: pending_def split: option.splits)
  have tv: "null_or_valid w (m_exception_type g)"
    using live_valid [OF t] by (simp add: null_or_valid_def)
  note d = null_or_valid_dropped [OF tb, of b]
  have r: "refcount (raised b p w) a =
      refcount w a + hits (m_exception_type g) a + hits (m_exception_value g) a
        + hits (m_exception_tb g) a - hits (dropped_traceback b w (m_exception_tb g)) a
        - hits (curexc_type w) a - hits (curexc_value w) a - hits (curexc_traceback w) a"
    using g tv v tb old d
    by (simp add: raised_def refcount_put refcount_bump_valid)
  have i: "indicator_refs (raised b p w) a =
      hits (m_exception_type g) a + hits (m_exception_value g) a
        + hits (installed_traceback b w (m_exception_tb g)) a"
    using g by (simp add: raised_def indicator_refs_def)
  from hits_traceback [of b w "m_exception_tb g" a] r i show ?thesis
    by (simp add: indicator_refs_def)
qed

lemma live_not_None: "live w p \<Longrightarrow> p \<noteq> None"
  by (auto simp: live_def split: option.splits)

lemma then_do_fails: "(\<And>u. \<exists>e. fst (n u) = Inl e) \<Longrightarrow> \<exists>e. fst (then_do m n w) = Inl e"
  by (cases "m w") (auto simp: then_do_apply split: sum.splits)

lemma CHECK_EXCEPTION_never_returns_with_kind:
  assumes "generator_at p w = Some g" and "m_exception_type g \<noteq> None"
  shows "fst (CHECK_EXCEPTION b p w) \<noteq> Inr ()"
proof -
  have "\<exists>e. fst (CHECK_EXCEPTION b p w) = Inl e"
    using assms unfolding CHECK_EXCEPTION_def
    by (simp add: deref_Some) (intro then_do_fails, simp add: fail_def)
  then show ?thesis by auto
qed

lemma refcount_generator: "generator_at (Some a) w = Some g \<Longrightarrow> refcount w a = ob_refcnt g"
  by (auto simp: refcount_def generator_at_def split: option.splits object.splits)

lemma raised_generator:
  assumes "generator_at (Some a) w = Some g"
  shows "generator_at (Some a) (raised b (Some a) w) =
           Some (g\<lparr>m_exception_type := None, ob_refcnt := refcount (raised b (Some a) w) a\<rparr>)"
proof -
  have "map_option norc (generator_at (Some a) (raised b (Some a) w)) =
          Some (norc (g\<lparr>m_exception_type := None\<rparr>))"
    using assms by (simp add: raised_norc)
  then obtain g' where g': "generator_at (Some a) (raised b (Some a) w) = Some g'"
    and n: "norc g' = norc (g\<lparr>m_exception_type := None\<rparr>)"
    by auto
  from norc_eqD [OF n] have "g' = g\<lparr>m_exception_type := None, ob_refcnt := ob_refcnt g'\<rparr>"
    by simp
  with g' refcount_generator [OF g'] show ?thesis by simp
qed

lemma put_Some:
  "generator_at (Some a) w = Some g \<Longrightarrow> put (Some a) f w = w\<lparr>heap := (heap w)(a \<mapsto> Generator (f g))\<rparr>"
  by (simp add: put_eq)

lemma YIELD_VALUE_not_live:
  "\<not> live w val \<Longrightarrow>
   YIELD_VALUE b env p val w =
     (Inl (if val = None \<or> dead w val then AssertionFailure else InvalidAccess), w)"
  using assertObject_cases [of val w]
  by (auto simp: YIELD_VALUE_def then_do_apply live_def dead_def valid_def split: option.splits)

lemma YIELD_VALUE_bad_generator:
  "live w val \<Longrightarrow> generator_at p w = None \<Longrightarrow> YIELD_VALUE b env p val w = (Inl InvalidAccess, w)"
  by (simp add: YIELD_VALUE_def then_do_apply assertObject_live assign_bad)

lemma YIELD_VALUE_live:
  assumes "live w val" and "generator_at p w = Some g"
  shows "YIELD_VALUE b env p val w =
           (case env (m_caller_context g) (put p (\<lambda>g. g\<lparr>m_yielded := val\<rparr>) w) of
              None \<Rightarrow> (Inl NotResumed, put p (\<lambda>g. g\<lparr>m_yielded := val\<rparr>) w)
            | Some w' \<Rightarrow> then_do (CHECK_EXCEPTION b p) (deref p (\<lambda>g. ret (m_yielded g))) w')"
  using assms
  by (simp add: YIELD_VALUE_def then_do_apply assertObject_live assign_ok deref_def
      generator_at_put swapFiber_def split: option.splits)

lemma YIELD_VALUE_resumed_plain:
  assumes "live w val" and "generator_at p w = Some g"
    and "env (m_caller_context g) (put p (\<lambda>g. g\<lparr>m_yielded := val\<rparr>) w) = Some w'"
    and "generator_at p w' = Some g'" and "m_exception_type g' = None"
  shows "YIELD_VALUE b env p val w = (Inr (m_yielded g'), w')"
  using assms
  by (simp add: YIELD_VALUE_live then_do_apply CHECK_EXCEPTION_none deref_def ret_def)


lemma CHECK_EXCEPTION_dead:
  assumes "generator_at p w = Some g" and "dead w (m_exception_type g)"
  shows "CHECK_EXCEPTION b p w = (Inl AssertionFailure, w)"
proof -
  from assms(2) have "m_exception_type g \<noteq> None"
    by (auto simp: dead_def split: option.splits)
  with assms show ?thesis
    by (simp add: CHECK_EXCEPTION_def deref_def then_do_apply assertObject_dead)
qed

lemma YIELD_VALUE_resumed_dead:
  assumes "live w val" and "generator_at p w = Some g"
    and "env (m_caller_context g) (put p (\<lambda>g. g\<lparr>m_yielded := val\<rparr>) w) = Some w'"
    and "generator_at p w' = Some g'" and "dead w' (m_exception_type g')"
  shows "YIELD_VALUE b env p val w = (Inl AssertionFailure, w')"
  using assms
  by (simp add: YIELD_VALUE_live then_do_apply CHECK_EXCEPTION_dead)

lemma CHECK_EXCEPTION_assertion_only_when_dead:
  assumes "fst (CHECK_EXCEPTION b p w) = Inl AssertionFailure"
  shows "\<exists>g. generator_at p w = Some g \<and> dead w (m_exception_type g)"
proof (cases "generator_at p w")
  case None
  with assms show ?thesis by (simp add: CHECK_EXCEPTION_invalid)
next
  case (Some g)
  show ?thesis
  proof (cases "m_exception_type g = None")
    case True
    with Some assms show ?thesis by (simp add: CHECK_EXCEPTION_none)
  next
    case tn: False
    show ?thesis
    proof (rule ccontr)
      assume "\<not> ?thesis"
      with Some have nd: "\<not> dead w (m_exception_type g)" by simp
      show False
      proof (cases "live w (m_exception_type g)")
        case False
        with nd tn have "assertObject (m_exception_type g) w = (Inl InvalidAccess, w)"
          using assertObject_cases [of "m_exception_type g" w] by auto
        with Some tn assms show False
          by (simp add: CHECK_EXCEPTION_def deref_def then_do_apply)
      next
        case t: True
        note tv = live_valid [OF t]
        show False
        proof (cases "pending p w")
          case True
          from CHECK_EXCEPTION_raise [OF True] assms show False by simp
        next
          case False
          show False
          proof (cases "null_or_valid w (m_exception_value g)")
            case False
            with Some tn assms show False
              by (simp add: CHECK_EXCEPTION_def deref_def then_do_apply assertObject_live [OF t]
                  Py_INCREF_bump [OF tv] generator_at_bump Py_XINCREF_bad)
          next
            case v: True
            show False
            proof (cases "null_or_valid w (m_exception_tb g)")
              case False
              with Some tn v assms show False
                by (simp add: CHECK_EXCEPTION_def deref_def then_do_apply assertObject_live [OF t]
                    Py_INCREF_bump [OF tv] generator_at_bump Py_XINCREF_ok Py_XINCREF_bad)
            next
              case tb: True
              from \<open>\<not> pending p w\<close> Some t v tb
              have old: "\<not> (null_or_valid w (curexc_type w) \<and> null_or_valid w (curexc_value w) \<and>
                   null_or_valid w (curexc_traceback w))"
                by (simp add: pending_def)
              let ?w3 = "bump 1 (m_exception_tb g) (bump 1 (m_exception_value g) (bump 1 (m_exception_type g) w))"
              have "fst (PyErr_Restore b (m_exception_type g) (m_exception_value g) (m_exception_tb g) ?w3)
                      = Inl InvalidAccess"
                using old tb by (intro PyErr_Restore_bad) simp_all
              then obtain w4 where
                "PyErr_Restore b (m_exception_type g) (m_exception_value g) (m_exception_tb g) ?w3
                   = (Inl InvalidAccess, w4)"
                by (cases "PyErr_Restore b (m_exception_type g) (m_exception_value g) (m_exception_tb g) ?w3") simp
              with Some tn v tb assms show False
                by (simp add: CHECK_EXCEPTION_def deref_def then_do_apply assertObject_live [OF t]
                    Py_INCREF_bump [OF tv] generator_at_bump Py_XINCREF_ok)
            qed
          qed
        qed
      qed
    qed
  qed
qed

lemmas yield_eval_defs =
  YIELD_VALUE_def swapFiber_def resume_at_once_def resume_sending_def resume_throwing_def
  never_resume_def put_def

lemma YIELD_VALUE_assertion_only_when_dead:
  assumes "live w val" and "generator_at p w = Some g"
    and "fst (YIELD_VALUE b env p val w) = Inl AssertionFailure"
  shows "\<exists>w' g'. env (m_caller_context g) (put p (\<lambda>g. g\<lparr>m_yielded := val\<rparr>) w) = Some w' \<and>
           generator_at p w' = Some g' \<and> dead w' (m_exception_type g')"
proof (cases "env (m_caller_context g) (put p (\<lambda>g. g\<lparr>m_yielded := val\<rparr>) w)")
  case None
  with assms show ?thesis by (simp add: YIELD_VALUE_live)
next
  case (Some w')
  obtain r w'' where ce: "CHECK_EXCEPTION b p w' = (r, w'')"
    by (cases "CHECK_EXCEPTION b p w'") auto
  have "r = Inl AssertionFailure"
  proof (cases r)
    case (Inl e)
    with assms Some ce show ?thesis by (simp add: YIELD_VALUE_live then_do_apply)
  next
    case (Inr x)
    with assms Some ce show ?thesis
      by (simp add: YIELD_VALUE_live then_do_apply deref_def ret_def split: option.splits)
  qed
  with ce have "fst (CHECK_EXCEPTION b p w') = Inl AssertionFailure" by simp
  from CHECK_EXCEPTION_assertion_only_when_dead [OF this] Some show ?thesis by simp
qed

lemma keepsD: "keeps obs m \<Longrightarrow> obs (snd (m w)) = obs w"
  by (simp add: keeps_def)

lemma keeps_ret: "keeps obs (ret x)"
  by (simp add: keeps_def ret_def)

lemma keeps_fail: "keeps obs (fail e)"
  by (simp add: keeps_def fail_def)

lemma keeps_then_with: "keeps obs m \<Longrightarrow> (\<And>x. keeps obs (k x)) \<Longrightarrow> keeps obs (then_with m k)"
  unfolding keeps_def then_with_def
proof (intro allI)
  fix w
  assume m: "\<forall>w. obs (snd (m w)) = obs w" and k: "\<And>x. \<forall>w. obs (snd (k x w)) = obs w"
  obtain r w' where mw: "m w = (r, w')" by (cases "m w") auto
  with m have w': "obs w' = obs w" by (metis snd_conv)
  show "obs (snd (case m w of (Inl e, w') \<Rightarrow> (Inl e, w') | (Inr x, w') \<Rightarrow> k x w')) = obs w"
    using mw w' k by (cases r) simp_all
qed

lemma keeps_then_do: "keeps obs m \<Longrightarrow> keeps obs n \<Longrightarrow> keeps obs (then_do m n)"
  by (simp add: then_do_def keeps_then_with)

lemma keeps_deref: "(\<And>g. keeps obs (k g)) \<Longrightarrow> keeps obs (deref p k)"
  by (auto simp: keeps_def deref_def split: option.splits)

lemma keeps_if: "keeps obs m \<Longrightarrow> keeps obs n \<Longrightarrow> keeps obs (if c then m else n)"
  by simp

lemma field_of_bump: "insensitive proj \<Longrightarrow> field_of proj a (bump n p w) = field_of proj a w"
  by (cases "generator_at (Some a) w") (simp_all add: field_of_def generator_at_bump insensitive_def)

lemma field_of_indicator:
  "field_of proj a (w\<lparr>curexc_type := t, curexc_value := v, curexc_traceback := tb\<rparr>) = field_of proj a w"
  by (simp add: field_of_def)

lemma field_of_put:
  "(\<And>g. proj (f g) = proj g) \<Longrightarrow> field_of proj a (put p f w) = field_of proj a w"
  by (cases "generator_at (Some a) w") (simp_all add: field_of_def generator_at_put)

lemma snd_Py_INCREF: "snd (Py_INCREF p w) = bump 1 p w"
  by (simp add: Py_INCREF_def bump_def split: option.splits)

lemma snd_Py_XINCREF: "snd (Py_XINCREF p w) = bump 1 p w"
  by (simp add: Py_XINCREF_def snd_Py_INCREF ret_def bump_def)

lemma snd_Py_DECREF: "snd (Py_DECREF p w) = bump (- 1) p w"
  by (simp add: Py_DECREF_def bump_def split: option.splits)

lemma snd_Py_XDECREF: "snd (Py_XDECREF p w) = bump (- 1) p w"
  by (simp add: Py_XDECREF_def snd_Py_DECREF ret_def bump_def)

lemma snd_assertObject: "snd (assertObject p w) = w"
  by (simp add: assertObject_def split: option.splits)

lemma snd_assign: "snd (assign p f w) = put p f w"
  by (simp add: put_def)

lemma snd_Py_TYPE: "snd (Py_TYPE p w) = w"
  by (simp add: Py_TYPE_def split: option.splits)

lemma untouched_field_of: "insensitive proj \<Longrightarrow> untouched (field_of proj a)"
  by (simp add: untouched_def field_of_bump field_of_put field_of_indicator insensitive_def)

lemma untouched_other_stacks: "untouched other_stacks"
  by (simp add: untouched_def)

lemma keeps_prims:
  assumes "untouched obs"
  shows "keeps obs (Py_INCREF p)"
    and "keeps obs (Py_XINCREF p)"
    and "keeps obs (Py_XDECREF p)"
    and "keeps obs (assertObject p)"
    and "keeps obs (Py_TYPE p)"
    and "keeps obs (assign p (\<lambda>g. g\<lparr>m_exception_type := t\<rparr>))"
    and "keeps obs (assign p (\<lambda>g. g\<lparr>m_yielded := y\<rparr>))"
  using assms
  by (simp_all add: keeps_def snd_Py_INCREF snd_Py_XINCREF snd_Py_XDECREF snd_assertObject
      snd_Py_TYPE snd_assign untouched_def)

lemma keeps_PyErr_Restore:
  assumes "untouched obs"
  shows "keeps obs (PyErr_Restore b t v tb)"
proof -
  have *: "\<And>x y z u. obs
      (snd (then_do (Py_XDECREF x) (then_do (Py_XDECREF y) (Py_XDECREF z)) u)) = obs u"
    by (intro keepsD keeps_then_do keeps_prims assms)
  have **: "\<And>w tb. obs (w\<lparr>curexc_type := t, curexc_value := v, curexc_traceback := tb\<rparr>) = obs w"
    using assms by (simp add: untouched_def)
  have k: "\<And>tb'. keeps obs (\<lambda>w.
      let oldtype = curexc_type w; oldvalue = curexc_value w; oldtraceback = curexc_traceback w
      in then_do (Py_XDECREF oldtype) (then_do (Py_XDECREF oldvalue) (Py_XDECREF oldtraceback))
           (w\<lparr>curexc_type := t, curexc_value := v, curexc_traceback := tb'\<rparr>))"
    by (simp add: keeps_def Let_def * **)
  have c: "keeps obs (PyTraceBack_Check b tb)"
    unfolding PyTraceBack_Check_def by (intro keeps_then_with keeps_ret keeps_prims assms)
  have d: "keeps obs (Py_DECREF tb)"
    using assms by (simp add: keeps_def snd_Py_DECREF untouched_def)
  show ?thesis
    unfolding PyErr_Restore_def
    by (intro keeps_then_with keeps_if keeps_then_do keeps_ret c d k)
qed

lemma keeps_CHECK_EXCEPTION:
  assumes "untouched obs"
  shows "keeps obs (CHECK_EXCEPTION b p)"
  unfolding CHECK_EXCEPTION_def
  by (intro keeps_deref keeps_if keeps_then_do keeps_fail keeps_ret keeps_prims
      keeps_PyErr_Restore assms)

lemma keeps_GetName: "keeps obs (Nuitka_Generator_GetName ob)"
  unfolding Nuitka_Generator_GetName_def by (intro keeps_deref keeps_ret)

lemma keeps_Check: "keeps obs (Nuitka_Generator_Check b ob)"
  unfolding Nuitka_Generator_Check_def
  by (intro keeps_then_with keeps_ret) (simp add: keeps_def snd_Py_TYPE)

lemma YIELD_VALUE_resumed_state:
  assumes "untouched obs" and "live w val" and "generator_at p w = Some g"
    and "env (m_caller_context g) (put p (\<lambda>g. g\<lparr>m_yielded := val\<rparr>) w) = Some w'"
  shows "obs (snd (YIELD_VALUE b env p val w)) = obs w'"
proof -
  have "keeps obs (then_do (CHECK_EXCEPTION b p) (deref p (\<lambda>g. ret (m_yielded g))))"
    by (intro keeps_then_do keeps_CHECK_EXCEPTION keeps_deref keeps_ret assms(1))
  from keepsD [OF this] assms(2-4) show ?thesis
    by (simp add: YIELD_VALUE_live)
qed

lemma YIELD_VALUE_related:
  assumes u: "untouched obs" and refl: "\<And>x. R x x"
    and env: "\<And>f u u'. env f u = Some u' \<Longrightarrow> R (obs u) (obs u')"
  shows "R (obs w) (obs (snd (YIELD_VALUE b env p val w)))"
proof (cases "live w val")
  case False
  then show ?thesis by (simp add: YIELD_VALUE_not_live refl)
next
  case l: True
  show ?thesis
  proof (cases "generator_at p w")
    case None
    with l show ?thesis by (simp add: YIELD_VALUE_bad_generator refl)
  next
    case (Some g)
    let ?sw = "put p (\<lambda>g. g\<lparr>m_yielded := val\<rparr>) w"
    have sw: "obs ?sw = obs w"
      using u by (simp add: untouched_def)
    show ?thesis
    proof (cases "env (m_caller_context g) ?sw")
      case None
      with l Some show ?thesis by (simp add: YIELD_VALUE_live sw refl)
    next
      case (Some w')
      from env [OF Some] have "R (obs w) (obs w')" by (simp add: sw)
      with YIELD_VALUE_resumed_state [where env = env, OF u l \<open>generator_at p w = Some g\<close> Some]
      show ?thesis by simp
    qed
  qed
qed

lemma run_op_related:
  assumes u: "untouched obs" and refl: "\<And>x. R x x"
    and env: "\<And>f u u'. env f u = Some u' \<Longrightarrow> R (obs u) (obs u')"
  shows "R (obs w) (obs (snd (run_op b env x w)))"
proof (cases x)
  case (Yield p v)
  have "snd (run_op b env x w) = snd (YIELD_VALUE b env p v w)"
    by (cases "YIELD_VALUE b env p v w"; cases "fst (YIELD_VALUE b env p v w)")
      (simp_all add: Yield then_do_apply ret_def)
  with YIELD_VALUE_related [where obs = obs and R = R and env = env and w = w and p = p and val = v and b = b, OF u refl env] show ?thesis by simp
next
  case (Yield_Return p v)
  have "snd (run_op b env x w) = snd (YIELD_VALUE b env p v w) \<or> snd (run_op b env x w) = w"
    by (cases "YIELD_VALUE b env p v w"; cases "fst (YIELD_VALUE b env p v w)")
      (simp_all add: Yield_Return YIELD_RETURN_def then_do_apply ret_def)
  with YIELD_VALUE_related [where obs = obs and R = R and env = env and w = w and p = p and val = v and b = b, OF u refl env] refl show ?thesis by auto
next
  case (Check_Exception p)
  with keepsD [OF keeps_CHECK_EXCEPTION [OF u]] refl show ?thesis by simp
next
  case (Get_Name p)
  have "keeps obs (then_do (Nuitka_Generator_GetName p) (ret ()))"
    by (intro keeps_then_do keeps_GetName keeps_ret)
  from keepsD [OF this] Get_Name refl show ?thesis by simp
next
  case (Type_Check p)
  have "keeps obs (then_do (Nuitka_Generator_Check b p) (ret ()))"
    by (intro keeps_then_do keeps_Check keeps_ret)
  from keepsD [OF this] Type_Check refl show ?thesis by simp
qed

lemma run_ops_related:
  assumes u: "untouched obs" and refl: "\<And>x. R x x"
    and trans: "\<And>x y z. R x y \<Longrightarrow> R y z \<Longrightarrow> R x z"
    and env: "\<And>f u u'. env f u = Some u' \<Longrightarrow> R (obs u) (obs u')"
  shows "R (obs w) (obs (snd (run_ops b env xs w)))"
proof (induction xs arbitrary: w)
  case Nil
  show ?case by (simp add: refl)
next
  case (Cons x xs)
  obtain r w' where step: "run_op b env x w = (r, w')"
    by (cases "run_op b env x w") auto
  have 1: "R (obs w) (obs w')"
    using run_op_related [where obs = obs and R = R and env = env and w = w and b = b and x = x, OF u refl env] step by simp
  have "snd (run_ops b env (x # xs) w) = snd (run_ops b env xs w') \<or>
        snd (run_ops b env (x # xs) w) = w'"
    using step by (cases r) auto
  then show ?case
    using 1 Cons.IH [of w'] trans by metis
qed

lemma status_of_field: "status_of a = field_of m_status a"
  by (simp add: status_of_def field_of_def fun_eq_iff)

lemma name_of_field: "name_of a = field_of m_name a"
  by (simp add: name_of_def field_of_def fun_eq_iff)

lemma untouched_status_of: "untouched (status_of a)"
  unfolding status_of_field by (rule untouched_field_of) (simp add: insensitive_def)

lemma untouched_name_of: "untouched (name_of a)"
  unfolding name_of_field by (rule untouched_field_of) (simp add: insensitive_def)

lemma run_op_Yield:
  "run_op b env (Yield p v) w =
     (map_sum id (\<lambda>_. ()) (fst (YIELD_VALUE b env p v w)), snd (YIELD_VALUE b env p v w))"
  by (cases "YIELD_VALUE b env p v w"; cases "fst (YIELD_VALUE b env p v w)")
    (simp_all add: then_do_apply ret_def)

lemma yielded_of_put:
  "generator_at (Some a) w = Some g \<Longrightarrow>
   yielded_of a (put (Some a) (\<lambda>g. g\<lparr>m_yielded := v\<rparr>) w) = v"
  by (simp add: yielded_of_def generator_at_put)

lemma Yield_step:
  assumes log: "\<forall>f u u'. env f u = Some u' \<longrightarrow> other_stacks u' = other_stacks u @ [yielded_of a u]"
  shows "other_stacks (snd (run_op b env (Yield (Some a) v) w)) = other_stacks w @ [v] \<or>
         other_stacks (snd (run_op b env (Yield (Some a) v) w)) = other_stacks w \<and>
         (\<exists>e. fst (run_op b env (Yield (Some a) v) w) = Inl e \<and> e \<noteq> PythonException)"
proof (cases "live w v")
  case False
  then show ?thesis by (simp add: run_op_Yield YIELD_VALUE_not_live del: run_op.simps)
next
  case l: True
  show ?thesis
  proof (cases "generator_at (Some a) w")
    case None
    with l show ?thesis by (simp add: run_op_Yield YIELD_VALUE_bad_generator del: run_op.simps)
  next
    case (Some g)
    let ?sw = "put (Some a) (\<lambda>g. g\<lparr>m_yielded := v\<rparr>) w"
    show ?thesis
    proof (cases "env (m_caller_context g) ?sw")
      case None
      with l Some show ?thesis by (simp add: run_op_Yield YIELD_VALUE_live del: run_op.simps)
    next
      case w': (Some w')
      from log w' have "other_stacks w' = other_stacks ?sw @ [yielded_of a ?sw]"
        by blast
      then have "other_stacks w' = other_stacks w @ [v]"
        by (simp add: yielded_of_put [OF Some])
      moreover have "other_stacks (snd (YIELD_VALUE b env (Some a) v w)) = other_stacks w'"
        by (rule YIELD_VALUE_resumed_state [where env = env, OF untouched_other_stacks l Some w'])
      ultimately show ?thesis by (simp add: run_op_Yield del: run_op.simps)
    qed
  qed
qed

lemma run_ops_Cons_fatal:
  "run_op b env x w = (Inl e, w') \<Longrightarrow> e \<noteq> PythonException \<Longrightarrow>
   run_ops b env (x # xs) w = (Some e, w')"
  by simp

lemma run_ops_Cons_go:
  "run_op b env x w = (r, w') \<Longrightarrow> \<not> (\<exists>e. r = Inl e \<and> e \<noteq> PythonException) \<Longrightarrow>
   run_ops b env (x # xs) w = run_ops b env xs w'"
  by (cases r) auto

lemma live_put:
  "(\<And>g. ob_refcnt (f g) = ob_refcnt g) \<Longrightarrow> live (put p f w) q = live w q"
  by (auto simp: live_def put_eq generator_at_def split: option.splits object.splits)

lemma live_other_stacks [simp]: "live (w\<lparr>other_stacks := s\<rparr>) q = live w q"
  by (simp add: live_def split: option.splits)

lemma generator_at_other_stacks [simp]:
  "generator_at p (w\<lparr>other_stacks := s\<rparr>) = generator_at p w"
  by (simp add: generator_at_def split: option.splits)

lemma observing_yield:
  assumes "live w v" and "generator_at (Some a) w = Some g" and "m_exception_type g = None"
  shows "run_op b (observing a) (Yield (Some a) v) w =
           (Inr (), (put (Some a) (\<lambda>g. g\<lparr>m_yielded := v\<rparr>) w)\<lparr>other_stacks := other_stacks w @ [v]\<rparr>)"
proof -
  let ?sw = "put (Some a) (\<lambda>g. g\<lparr>m_yielded := v\<rparr>) w"
  let ?w' = "?sw\<lparr>other_stacks := other_stacks w @ [v]\<rparr>"
  have e: "observing a (m_caller_context g) ?sw = Some ?w'"
    by (simp add: observing_def yielded_of_put [OF assms(2)])
  have g': "generator_at (Some a) ?w' = Some (g\<lparr>m_yielded := v\<rparr>)"
    using assms(2) by (simp add: generator_at_put)
  have "YIELD_VALUE b (observing a) (Some a) v w = (Inr (m_yielded (g\<lparr>m_yielded := v\<rparr>)), ?w')"
    by (rule YIELD_VALUE_resumed_plain [where env = "observing a" and b = b, OF assms(1,2) e g'])
      (simp add: assms(3))
  then show ?thesis by (simp add: run_op_Yield del: run_op.simps)
qed



lemma not_before_refl: "not_before x x"
  by (simp add: not_before_def split: option.splits)

lemma not_before_trans: "not_before x y \<Longrightarrow> not_before y z \<Longrightarrow> not_before x z"
  by (auto simp: not_before_def split: option.splits)

lemma rank_next_status: "rank s \<le> rank (next_status t s)"
  by (cases t; cases s) simp_all

lemma status_of_fire:
  "status_of a (fire a' t w) =
     (if a' = a then map_option (next_status t) (status_of a w) else status_of a w)"
  by (cases "generator_at (Some a) w") (auto simp: status_of_def fire_def generator_at_put)

lemma fire_not_before: "not_before (status_of a w) (status_of a (fire a' t w))"
  by (cases "status_of a w") (simp_all add: status_of_fire not_before_def rank_next_status)

lemma status_of_other_stacks [simp]: "status_of a (w\<lparr>other_stacks := s\<rparr>) = status_of a w"
  by (simp add: status_of_def)

lemma fold_fire_not_before:
  "not_before (status_of a w) (status_of a (fold (\<lambda>(a, t). fire a t) entry w))"
proof (induction entry arbitrary: w)
  case Nil
  show ?case by (simp add: not_before_refl)
next
  case (Cons x entry)
  obtain a' t where x: "x = (a', t)" by (cases x)
  have "not_before (status_of a w) (status_of a (fire a' t w))"
    by (rule fire_not_before)
  moreover have "not_before (status_of a (fire a' t w))
      (status_of a (fold (\<lambda>(a, t). fire a t) entry (fire a' t w)))"
    by (rule Cons.IH)
  ultimately show ?case
    unfolding x by (simp del: fire_def) (rule not_before_trans)
qed

lemma scripted_caller_not_before:
  "scripted_caller f u = Some u' \<Longrightarrow> not_before (status_of a u) (status_of a u')"
  using fold_fire_not_before [of a "u\<lparr>other_stacks := tl (other_stacks u)\<rparr>" "hd (other_stacks u)"]
  by (auto simp: scripted_caller_def split: list.splits)

lemma run_steps_not_before:
  "not_before (status_of a w) (status_of a (snd (run_steps b xs w)))"
proof (induction xs arbitrary: w)
  case Nil
  show ?case by (simp add: not_before_refl)
next
  case (Cons x xs)
  show ?case
  proof (cases x)
    case (Caller a' t)
    have "not_before (status_of a w) (status_of a (fire a' t w))"
      by (rule fire_not_before)
    moreover have "not_before (status_of a (fire a' t w))
        (status_of a (snd (run_steps b xs (fire a' t w))))"
      by (rule Cons.IH)
    ultimately show ?thesis
      unfolding Caller by (simp del: run_op.simps) (rule not_before_trans)
  next
    case (Producer y)
    obtain r w' where step: "run_op b scripted_caller y w = (r, w')"
      by (cases "run_op b scripted_caller y w") blast
    have 1: "not_before (status_of a w) (status_of a w')"
      using run_op_related [where obs = "status_of a" and R = not_before
          and env = scripted_caller and w = w and b = b and x = y,
          OF untouched_status_of not_before_refl scripted_caller_not_before]
      by (simp only: step snd_conv)
    have 2: "not_before (status_of a w') (status_of a (snd (run_steps b xs w')))"
      by (rule Cons.IH)
    have "snd (run_steps b (x # xs) w) = snd (run_steps b xs w') \<or>
          snd (run_steps b (x # xs) w) = w'"
      unfolding Producer using step by (cases r) (auto simp del: run_op.simps)
    then show ?thesis
    proof
      assume "snd (run_steps b (x # xs) w) = snd (run_steps b xs w')"
      with not_before_trans [OF 1 2] show ?thesis by (simp only:)
    next
      assume "snd (run_steps b (x # xs) w) = w'"
      with 1 show ?thesis by (simp only:)
    qed
  qed
qed

section \<open>The claims\<close>

lemmas eval_defs =
  example_generator_def example_world_def throwing_generator_def throwing_world_def
  CHECK_EXCEPTION_def deref_def generator_at_def then_do_def then_with_def assertObject_def
  Py_INCREF_def Py_XINCREF_def Py_DECREF_def Py_XDECREF_def PyErr_Restore_def assign_def
  PyTraceBack_Check_def Py_TYPE_def old_build_def ret_def fail_def Let_def




text \<open>
  Claim C8: of the three slots of the pending error, the raise resets the kind and nothing
  else. After a run of \<open>CHECK_EXCEPTION\<close> that throws, the generator is what it was
  with \<open>m_exception_type\<close> set to \<open>NULL\<close> (its own reference count is the only other
  field that may differ, when an error object is the generator itself), so
  \<open>m_exception_value\<close> and \<open>m_exception_tb\<close> keep their pointers; a second run
  on the resulting state returns without raising and changes nothing. Whether an error
  counts as pending depends on the kind alone: the operation returns normally exactly
  when \<open>m_exception_type\<close> is \<open>NULL\<close>, whatever the other two slots hold.
\<close>

theorem CHECK_EXCEPTION_clears_only_kind:
  assumes "generator_at (Some a) w = Some g"
  shows "(fst (CHECK_EXCEPTION b (Some a) w) = Inl PythonException \<longrightarrow>
            generator_at (Some a) (snd (CHECK_EXCEPTION b (Some a) w)) =
              Some (g\<lparr>m_exception_type := None,
                      ob_refcnt := refcount (snd (CHECK_EXCEPTION b (Some a) w)) a\<rparr>) \<and>
            CHECK_EXCEPTION b (Some a) (snd (CHECK_EXCEPTION b (Some a) w)) =
              (Inr (), snd (CHECK_EXCEPTION b (Some a) w))) \<and>
         (fst (CHECK_EXCEPTION b (Some a) w) = Inr () \<longleftrightarrow> m_exception_type g = None) \<and>
         (m_exception_type g = None \<longrightarrow> CHECK_EXCEPTION b (Some a) w = (Inr (), w))"
proof (intro conjI impI)
  assume r: "fst (CHECK_EXCEPTION b (Some a) w) = Inl PythonException"
  then have p: "pending (Some a) w"
    by (simp add: CHECK_EXCEPTION_raises_iff)
  have w': "snd (CHECK_EXCEPTION b (Some a) w) = raised b (Some a) w"
    by (simp add: CHECK_EXCEPTION_raise [OF p])
  show g': "generator_at (Some a) (snd (CHECK_EXCEPTION b (Some a) w)) =
      Some (g\<lparr>m_exception_type := None,
              ob_refcnt := refcount (snd (CHECK_EXCEPTION b (Some a) w)) a\<rparr>)"
    unfolding w' by (rule raised_generator [OF assms])
  show "CHECK_EXCEPTION b (Some a) (snd (CHECK_EXCEPTION b (Some a) w)) =
      (Inr (), snd (CHECK_EXCEPTION b (Some a) w))"
    by (rule CHECK_EXCEPTION_none [OF g']) simp
next
  assume "m_exception_type g = None"
  with assms show "CHECK_EXCEPTION b (Some a) w = (Inr (), w)"
    by (rule CHECK_EXCEPTION_none)
next
  show "fst (CHECK_EXCEPTION b (Some a) w) = Inr () \<longleftrightarrow> m_exception_type g = None"
  proof
    assume "m_exception_type g = None"
    with assms show "fst (CHECK_EXCEPTION b (Some a) w) = Inr ()"
      by (simp add: CHECK_EXCEPTION_none)
  next
    assume ok: "fst (CHECK_EXCEPTION b (Some a) w) = Inr ()"
    show "m_exception_type g = None"
    proof (rule ccontr)
      assume tn: "m_exception_type g \<noteq> None"
      show False
      proof (cases "pending (Some a) w")
        case True
        from CHECK_EXCEPTION_raise [OF True] ok show False by simp
      next
        case False
        have "fst (CHECK_EXCEPTION b (Some a) w) \<noteq> Inr ()"
          using CHECK_EXCEPTION_never_returns_with_kind [OF assms tn] .
        with ok show False by simp
      qed
    qed
  qed
qed

theorem CHECK_EXCEPTION_clears_only_kind_witness:
  "fst (CHECK_EXCEPTION old_build (Some 6) throwing_world) = Inl PythonException \<and>
   generator_at (Some 6) (snd (CHECK_EXCEPTION old_build (Some 6) throwing_world)) =
     Some (throwing_generator\<lparr>m_exception_type := None\<rparr>) \<and>
   m_exception_value (throwing_generator\<lparr>m_exception_type := None\<rparr>) = Some 4 \<and>
   CHECK_EXCEPTION old_build (Some 6) (snd (CHECK_EXCEPTION old_build (Some 6) throwing_world)) =
     (Inr (), snd (CHECK_EXCEPTION old_build (Some 6) throwing_world)) \<and>
   m_exception_type example_generator = None \<and>
   CHECK_EXCEPTION old_build (Some 6) example_world = (Inr (), example_world)"
proof -
  have g: "generator_at (Some 6) throwing_world = Some throwing_generator"
    by (simp add: generator_at_def throwing_world_def)
  have r: "fst (CHECK_EXCEPTION old_build (Some 6) throwing_world) = Inl PythonException"
    by (simp add: eval_defs)
  have c: "refcount (snd (CHECK_EXCEPTION old_build (Some 6) throwing_world)) 6 = 1"
    by (simp add: eval_defs refcount_def)
  have e: "throwing_generator\<lparr>m_exception_type := None, ob_refcnt := 1\<rparr> =
      throwing_generator\<lparr>m_exception_type := None\<rparr>"
    "m_exception_value (throwing_generator\<lparr>m_exception_type := None\<rparr>) = Some 4"
    by (simp_all add: throwing_generator_def example_generator_def)
  have g0: "generator_at (Some 6) example_world = Some example_generator"
    by (simp add: generator_at_def example_world_def)
  have n: "m_exception_type example_generator = None"
    by (simp add: example_generator_def)
  show ?thesis
    using CHECK_EXCEPTION_clears_only_kind [OF g] CHECK_EXCEPTION_clears_only_kind [OF g0]
      r c e n
    by simp
qed

text \<open>
  Claim C9: the raise takes no reference away from anyone. \<open>CHECK_EXCEPTION\<close>
  adds a reference for each pointer before it hands the three to \<open>PyErr_Restore\<close>,
  which owns what it is given and releases what the indicator held. So for every address
  the references not owned by the error indicator, those on behalf of the slots of the
  generator among them, are as many after a throwing run as before.
\<close>

theorem CHECK_EXCEPTION_keeps_owned_references:
  assumes "fst (CHECK_EXCEPTION b generator w) = Inl PythonException"
  shows "refcount (snd (CHECK_EXCEPTION b generator w)) a
           - indicator_refs (snd (CHECK_EXCEPTION b generator w)) a
         = refcount w a - indicator_refs w a"
proof -
  from assms have p: "pending generator w"
    by (simp add: CHECK_EXCEPTION_raises_iff)
  show ?thesis
    by (simp add: CHECK_EXCEPTION_raise [OF p] raised_refcount [OF p])
qed

theorem CHECK_EXCEPTION_keeps_owned_references_witness:
  "fst (CHECK_EXCEPTION old_build (Some 6) rethrowing_world) = Inl PythonException \<and>
   refcount rethrowing_world 3 = 5 \<and> indicator_refs rethrowing_world 3 = 1 \<and>
   indicator_refs (snd (CHECK_EXCEPTION old_build (Some 6) rethrowing_world)) 3 = 1 \<and>
   refcount (snd (CHECK_EXCEPTION old_build (Some 6) rethrowing_world)) 3 = 5 \<and>
   fst (CHECK_EXCEPTION old_build (Some 6) throwing_world) = Inl PythonException \<and>
   refcount throwing_world 4 = 1 \<and> indicator_refs throwing_world 4 = 0 \<and>
   indicator_refs (snd (CHECK_EXCEPTION old_build (Some 6) throwing_world)) 4 = 1 \<and>
   refcount (snd (CHECK_EXCEPTION old_build (Some 6) throwing_world)) 4 = 2"
proof -
  have r: "fst (CHECK_EXCEPTION old_build (Some 6) rethrowing_world) = Inl PythonException"
    by (simp add: eval_defs rethrowing_world_def)
  have b: "refcount rethrowing_world 3 = 5" "indicator_refs rethrowing_world 3 = 1"
    by (simp_all add: eval_defs rethrowing_world_def refcount_def indicator_refs_def hits_def)
  have i: "indicator_refs (snd (CHECK_EXCEPTION old_build (Some 6) rethrowing_world)) 3 = 1"
    by (simp add: eval_defs rethrowing_world_def indicator_refs_def hits_def)
  have r': "fst (CHECK_EXCEPTION old_build (Some 6) throwing_world) = Inl PythonException"
    by (simp add: eval_defs)
  have b': "refcount throwing_world 4 = 1" "indicator_refs throwing_world 4 = 0"
    by (simp_all add: eval_defs refcount_def indicator_refs_def hits_def)
  have i': "indicator_refs (snd (CHECK_EXCEPTION old_build (Some 6) throwing_world)) 4 = 1"
    by (simp add: eval_defs indicator_refs_def hits_def)
  show ?thesis
    using CHECK_EXCEPTION_keeps_owned_references [OF r, of 3]
      CHECK_EXCEPTION_keeps_owned_references [OF r', of 4] r b i r' b' i'
    by simp
qed



text \<open>
  Claim C3, amended: the assertions cover the value on the way out and the kind of a
  pending error on the way back, not the value sent back. A yielded value that is
  \<open>NULL\<close> or dead fails the assertion before anything is written or switched. A
  pending kind that is dead at the resumption fails the assertion there, in the state the
  caller left. When the value is live and no resumption leaves a dead kind, no assertion
  fails.
\<close>

theorem YIELD_VALUE_assertions:
  assumes "generator_at (Some a) w = Some g"
  shows "(val = None \<or> dead w val \<longrightarrow>
            YIELD_VALUE b env (Some a) val w = (Inl AssertionFailure, w)) \<and>
         (live w val \<and>
          env (m_caller_context g) (w\<lparr>heap := (heap w)(a \<mapsto> Generator (g\<lparr>m_yielded := val\<rparr>))\<rparr>) = Some w' \<and>
          generator_at (Some a) w' = Some g' \<and> dead w' (m_exception_type g') \<longrightarrow>
            YIELD_VALUE b env (Some a) val w = (Inl AssertionFailure, w')) \<and>
         (live w val \<and>
          (\<forall>u g''. env (m_caller_context g)
                     (w\<lparr>heap := (heap w)(a \<mapsto> Generator (g\<lparr>m_yielded := val\<rparr>))\<rparr>) = Some u \<and>
                   generator_at (Some a) u = Some g'' \<longrightarrow> \<not> dead u (m_exception_type g'')) \<longrightarrow>
            fst (YIELD_VALUE b env (Some a) val w) \<noteq> Inl AssertionFailure)"
proof (intro conjI impI)
  assume d: "val = None \<or> dead w val"
  then have "\<not> live w val"
    by (auto simp: live_def dead_def split: option.splits)
  with d show "YIELD_VALUE b env (Some a) val w = (Inl AssertionFailure, w)"
    by (simp add: YIELD_VALUE_not_live)
next
  assume h: "live w val \<and>
    env (m_caller_context g) (w\<lparr>heap := (heap w)(a \<mapsto> Generator (g\<lparr>m_yielded := val\<rparr>))\<rparr>) = Some w' \<and>
    generator_at (Some a) w' = Some g' \<and> dead w' (m_exception_type g')"
  then have sw: "env (m_caller_context g) (put (Some a) (\<lambda>g. g\<lparr>m_yielded := val\<rparr>) w) = Some w'"
    using assms by (simp add: put_Some)
  from h assms sw show "YIELD_VALUE b env (Some a) val w = (Inl AssertionFailure, w')"
    by (intro YIELD_VALUE_resumed_dead) auto
next
  assume h: "live w val \<and>
    (\<forall>u g''. env (m_caller_context g)
               (w\<lparr>heap := (heap w)(a \<mapsto> Generator (g\<lparr>m_yielded := val\<rparr>))\<rparr>) = Some u \<and>
             generator_at (Some a) u = Some g'' \<longrightarrow> \<not> dead u (m_exception_type g''))"
  show "fst (YIELD_VALUE b env (Some a) val w) \<noteq> Inl AssertionFailure"
  proof
    assume "fst (YIELD_VALUE b env (Some a) val w) = Inl AssertionFailure"
    from YIELD_VALUE_assertion_only_when_dead [OF _ assms this] h
    show False using assms by (auto simp: put_Some)
  qed
qed

theorem YIELD_VALUE_assertions_witness:
  "dead example_world (Some 5) \<and>
   YIELD_VALUE old_build resume_at_once (Some 6) (Some 5) example_world = (Inl AssertionFailure, example_world) \<and>
   YIELD_VALUE old_build resume_at_once (Some 6) None example_world = (Inl AssertionFailure, example_world) \<and>
   live example_world (Some 2) \<and>
   fst (YIELD_VALUE old_build (resume_throwing 6 (Some 5) None None) (Some 6) (Some 2) example_world)
     = Inl AssertionFailure \<and>
   fst (YIELD_VALUE old_build resume_at_once (Some 6) (Some 2) example_world) \<noteq> Inl AssertionFailure"
proof -
  let ?sw = "example_world\<lparr>heap := (heap example_world)
      (6 \<mapsto> Generator (example_generator\<lparr>m_yielded := Some 2\<rparr>))\<rparr>"
  let ?thrown = "put (Some 6)
      (\<lambda>g. g\<lparr>m_exception_type := Some 5, m_exception_value := None, m_exception_tb := None\<rparr>) ?sw"
  have g: "generator_at (Some 6) example_world = Some example_generator"
    by (simp add: generator_at_def example_world_def)
  have d: "dead example_world (Some 5)"
    by (simp add: dead_def example_world_def)
  have l: "live example_world (Some 2)"
    by (simp add: live_def example_world_def)
  have gsw: "generator_at (Some 6) ?sw = Some (example_generator\<lparr>m_yielded := Some 2\<rparr>)"
    by (simp add: generator_at_def)
  have e2: "resume_throwing 6 (Some 5) None None (m_caller_context example_generator) ?sw
      = Some ?thrown"
    by (simp add: resume_throwing_def)
  have g2: "generator_at (Some 6) ?thrown =
      Some (example_generator\<lparr>m_yielded := Some 2, m_exception_type := Some 5,
        m_exception_value := None, m_exception_tb := None\<rparr>)"
    by (simp add: generator_at_put gsw)
  have d2: "dead ?thrown (m_exception_type (example_generator\<lparr>m_yielded := Some 2,
        m_exception_type := Some 5, m_exception_value := None, m_exception_tb := None\<rparr>))"
    by (simp add: dead_def put_eq generator_at_def example_world_def)
  have q: "\<forall>u g''. resume_at_once (m_caller_context example_generator) ?sw = Some u \<and>
      generator_at (Some 6) u = Some g'' \<longrightarrow> \<not> dead u (m_exception_type g'')"
  proof (intro allI impI)
    fix u g''
    assume h: "resume_at_once (m_caller_context example_generator) ?sw = Some u \<and>
      generator_at (Some 6) u = Some g''"
    then have "u = ?sw" by (simp add: resume_at_once_def)
    with h gsw have "g'' = example_generator\<lparr>m_yielded := Some 2\<rparr>" by simp
    then have "m_exception_type g'' = None" by (simp add: example_generator_def)
    then show "\<not> dead u (m_exception_type g'')" by (simp add: dead_def)
  qed
  have a1: "YIELD_VALUE old_build resume_at_once (Some 6) (Some 5) example_world
      = (Inl AssertionFailure, example_world)"
    using YIELD_VALUE_assertions [where env = resume_at_once and val = "Some 5", OF g,
        THEN conjunct1] d
    by simp
  have a2: "YIELD_VALUE old_build resume_at_once (Some 6) None example_world
      = (Inl AssertionFailure, example_world)"
    using YIELD_VALUE_assertions [where env = resume_at_once and val = None, OF g,
        THEN conjunct1]
    by simp
  have "YIELD_VALUE old_build (resume_throwing 6 (Some 5) None None) (Some 6) (Some 2) example_world
      = (Inl AssertionFailure, ?thrown)"
    using YIELD_VALUE_assertions [where env = "resume_throwing 6 (Some 5) None None"
        and val = "Some 2" and w' = ?thrown, OF g, THEN conjunct2, THEN conjunct1] l e2 g2 d2
    by blast
  then have a3: "fst (YIELD_VALUE old_build (resume_throwing 6 (Some 5) None None) (Some 6) (Some 2)
      example_world) = Inl AssertionFailure"
    by simp
  have a4: "fst (YIELD_VALUE old_build resume_at_once (Some 6) (Some 2) example_world) \<noteq> Inl AssertionFailure"
    using YIELD_VALUE_assertions [where env = resume_at_once and val = "Some 2", OF g,
        THEN conjunct2, THEN conjunct2] l q
    by blast
  from d a1 a2 l a3 a4 show ?thesis by simp
qed

text \<open>
  Claim C3 as stated fails on the way back in: a caller that sends \<open>NULL\<close>, or the dead
  object at 5, gets it returned to the producer as the result of the yield, and no
  assertion fails.
\<close>

theorem YIELD_VALUE_unchecked_sent_value_counterexample:
  "fst (YIELD_VALUE old_build (resume_sending 6 None) (Some 6) (Some 2) example_world) = Inr None \<and>
   fst (YIELD_VALUE old_build (resume_sending 6 (Some 5)) (Some 6) (Some 2) example_world) = Inr (Some 5) \<and>
   dead (snd (YIELD_VALUE old_build (resume_sending 6 (Some 5)) (Some 6) (Some 2) example_world)) (Some 5)"
  by (simp add: eval_defs yield_eval_defs dead_def)

text \<open>
  Claim C4, amended: \<open>YIELD_RETURN\<close> depends on the version gate and on the value.
  When the build is for 2.7 or later, or the value is \<open>None\<close>, it does nothing: it
  returns in the state it was called in and never enters the caller. When the build is
  older and the value is not \<open>None\<close>, it ends as \<open>YIELD_VALUE\<close> on the same
  arguments does, in the same state, its result dropped.
\<close>

theorem YIELD_RETURN_gated:
  "(270 \<le> PYTHON_VERSION b \<or> val = Some (Py_None b) \<longrightarrow>
      YIELD_RETURN b env generator val w = (Inr (), w)) \<and>
   (PYTHON_VERSION b < 270 \<and> val \<noteq> Some (Py_None b) \<longrightarrow>
      fst (YIELD_RETURN b env generator val w)
        = map_sum id (\<lambda>_. ()) (fst (YIELD_VALUE b env generator val w)) \<and>
      snd (YIELD_RETURN b env generator val w) = snd (YIELD_VALUE b env generator val w))"
  by (cases "YIELD_VALUE b env generator val w"; cases "fst (YIELD_VALUE b env generator val w)")
    (auto simp: YIELD_RETURN_def ret_def then_do_apply)

theorem YIELD_RETURN_gated_witness:
  "YIELD_RETURN new_build resume_at_once (Some 6) (Some 2) example_world = (Inr (), example_world) \<and>
   YIELD_RETURN old_build resume_at_once (Some 6) (Some 7) example_world = (Inr (), example_world) \<and>
   fst (YIELD_VALUE old_build resume_at_once (Some 6) (Some 2) example_world) = Inr (Some 2) \<and>
   fst (YIELD_RETURN old_build resume_at_once (Some 6) (Some 2) example_world) = Inr () \<and>
   snd (YIELD_RETURN old_build resume_at_once (Some 6) (Some 2) example_world)
     = snd (YIELD_VALUE old_build resume_at_once (Some 6) (Some 2) example_world)"
proof -
  have v: "fst (YIELD_VALUE old_build resume_at_once (Some 6) (Some 2) example_world) = Inr (Some 2)"
    by (simp add: eval_defs yield_eval_defs)
  have b: "270 \<le> PYTHON_VERSION new_build" "PYTHON_VERSION old_build < 270"
    "Py_None old_build = 7"
    by (simp_all add: new_build_def old_build_def)
  show ?thesis
    using YIELD_RETURN_gated [of new_build "Some 2" resume_at_once "Some 6" example_world]
      YIELD_RETURN_gated [of old_build "Some 7" resume_at_once "Some 6" example_world]
      YIELD_RETURN_gated [of old_build "Some 2" resume_at_once "Some 6" example_world]
      v b
    by simp
qed

text \<open>
  Claim C4 as stated fails: on the same generator and value the two builds differ. The
  older build writes the value into the slot and switches to the caller (and is lost when
  the caller never resumes it); the newer build leaves the slot alone and returns. Under
  the older build, a value that is \<open>None\<close> and one that is not differ in the same way.
\<close>

theorem YIELD_RETURN_version_counterexample:
  "yielded_of 6 example_world = None \<and>
   yielded_of 6 (snd (YIELD_RETURN old_build resume_at_once (Some 6) (Some 2) example_world)) = Some 2 \<and>
   yielded_of 6 (snd (YIELD_RETURN new_build resume_at_once (Some 6) (Some 2) example_world)) = None \<and>
   yielded_of 6 (snd (YIELD_RETURN old_build resume_at_once (Some 6) (Some 7) example_world)) = None \<and>
   YIELD_RETURN old_build resume_at_once (Some 6) (Some 2) example_world \<noteq>
   YIELD_RETURN new_build resume_at_once (Some 6) (Some 2) example_world \<and>
   fst (YIELD_RETURN old_build never_resume (Some 6) (Some 2) example_world) = Inl NotResumed \<and>
   fst (YIELD_RETURN new_build never_resume (Some 6) (Some 2) example_world) = Inr ()"
proof -
  let ?old = "YIELD_RETURN old_build resume_at_once (Some 6) (Some 2) example_world"
  let ?new = "YIELD_RETURN new_build resume_at_once (Some 6) (Some 2) example_world"
  have o: "yielded_of 6 (snd ?old) = Some 2"
    by (simp add: YIELD_RETURN_def old_build_def eval_defs yield_eval_defs yielded_of_def)
  have n: "yielded_of 6 (snd ?new) = None"
    by (simp add: YIELD_RETURN_def new_build_def eval_defs yielded_of_def)
  have d: "?old \<noteq> ?new"
  proof
    assume "?old = ?new"
    then have "yielded_of 6 (snd ?old) = yielded_of 6 (snd ?new)" by simp
    with o n show False by simp
  qed
  have r: "yielded_of 6 example_world = None"
    "yielded_of 6 (snd (YIELD_RETURN old_build resume_at_once (Some 6) (Some 7) example_world)) = None"
    "fst (YIELD_RETURN old_build never_resume (Some 6) (Some 2) example_world) = Inl NotResumed"
    "fst (YIELD_RETURN new_build never_resume (Some 6) (Some 2) example_world) = Inr ()"
    by (simp_all add: YIELD_RETURN_def old_build_def new_build_def eval_defs yield_eval_defs
        yielded_of_def)
  from o n d r show ?thesis by simp
qed

text \<open>
  Claim C10: the type check compares the type pointer of the object with the address of
  the generator type and nothing else. For every object it answers whether the two are
  equal, and leaves the state alone; an object whose type is any other type object, one
  derived from the generator type included, is not recognised.
\<close>

theorem Nuitka_Generator_Check_exact:
  assumes "heap w a = Some obj"
  shows "Nuitka_Generator_Check b (Some a) w
           = (Inr (obj_type obj = Some (Nuitka_Generator_Type b)), w)"
  using assms by (simp add: Nuitka_Generator_Check_def Py_TYPE_def then_with_def ret_def)

theorem Nuitka_Generator_Check_exact_witness:
  "heap example_world 6 = Some (Generator example_generator) \<and>
   Nuitka_Generator_Check old_build (Some 6) example_world = (Inr True, example_world) \<and>
   heap example_world 4 = Some (Object \<lparr>ob_refcnt = 1, ob_type = Some 3\<rparr>) \<and>
   Nuitka_Generator_Check old_build (Some 4) example_world = (Inr False, example_world)"
proof -
  have h: "heap example_world 6 = Some (Generator example_generator)"
    "heap example_world 4 = Some (Object \<lparr>ob_refcnt = 1, ob_type = Some 3\<rparr>)"
    by (simp_all add: example_world_def)
  have t: "obj_type (Generator example_generator) = Some (Nuitka_Generator_Type old_build)"
    "obj_type (Object \<lparr>ob_refcnt = 1, ob_type = Some 3\<rparr>) \<noteq> Some (Nuitka_Generator_Type old_build)"
    by (simp_all add: example_generator_def old_build_def)
  show ?thesis
    using Nuitka_Generator_Check_exact [OF h(1), of old_build]
      Nuitka_Generator_Check_exact [OF h(2), of old_build] h t
    by simp
qed

text \<open>
  Claim C5: the status has the three values of the enumeration and no other, and no run
  moves it backwards. Take any run of operations, those of the header on the producer's
  side and those of the life cycle on the caller's side (\<open>resume\<close>, \<open>throwInto\<close>,
  \<open>close\<close>, the end of the producer), in any order, on any generators, with any caller
  script run at the yields: the status a generator has at the end is not before the one it
  had at the start, in the order \<open>Unused\<close>, \<open>Running\<close>, \<open>Finished\<close>. And the
  operations of the header leave the status as it is: the header never writes
  \<open>m_status\<close>, so a run of its operations changes the status of no generator, whatever
  the operations are and on whatever generators they act, as long as the caller leaves it
  alone while the producer is suspended in a yield.
\<close>

theorem status_never_regresses:
  "(s = status_Unused \<or> s = status_Running \<or> s = status_Finished) \<and>
   (status_of a w = Some s0 \<longrightarrow>
      (\<exists>s'. status_of a (snd (run_steps b xs w)) = Some s' \<and> rank s0 \<le> rank s')) \<and>
   ((\<forall>f u u'. env f u = Some u' \<longrightarrow> status_of a u' = status_of a u) \<longrightarrow>
      status_of a (snd (run_ops b env ys v)) = status_of a v)"
proof (intro conjI impI)
  show "s = status_Unused \<or> s = status_Running \<or> s = status_Finished"
    by (cases s) simp_all
next
  assume "\<forall>f u u'. env f u = Some u' \<longrightarrow> status_of a u' = status_of a u"
  then have e: "\<And>f u u'. env f u = Some u' \<Longrightarrow> status_of a u = status_of a u'"
    by simp
  from run_ops_related [where obs = "status_of a" and R = "(=)" and env = env and w = v
      and b = b and xs = ys, OF untouched_status_of _ _ e]
  show "status_of a (snd (run_ops b env ys v)) = status_of a v"
    by simp
next
  assume s0: "status_of a w = Some s0"
  from run_steps_not_before [of a w b xs] s0
  show "\<exists>s'. status_of a (snd (run_steps b xs w)) = Some s' \<and> rank s0 \<le> rank s'"
    by (cases "status_of a (snd (run_steps b xs w))") (simp_all add: not_before_def)
qed

theorem status_never_regresses_witness:
  "status_of 6 unused_world = Some status_Unused \<and>
   (\<exists>s'. status_of 6 (snd (run_steps old_build example_run unused_world)) = Some s' \<and>
         rank status_Unused \<le> rank s') \<and>
   status_of 6 (snd (run_steps old_build example_run unused_world)) = Some status_Finished \<and>
   status_of 6 example_world = Some status_Running \<and>
   status_of 6 (snd (run_ops old_build resume_at_once example_body example_world))
     = Some status_Running"
proof -
  have u: "status_of 6 unused_world = Some status_Unused"
    by (simp add: status_of_def generator_at_def unused_world_def)
  have s0: "status_of 6 example_world = Some status_Running"
    by (simp add: status_of_def generator_at_def example_world_def example_generator_def)
  have h1: "\<forall>f u u'. resume_at_once f u = Some u' \<longrightarrow> status_of 6 u' = status_of 6 u"
    by (simp add: resume_at_once_def)
  note T = status_never_regresses [where a = 6 and b = old_build and xs = example_run
      and w = unused_world and ?s0.0 = status_Unused and env = resume_at_once
      and ys = example_body and v = example_world and s = status_Unused]
  from T u have a: "\<exists>s'. status_of 6 (snd (run_steps old_build example_run unused_world)) = Some s' \<and>
      rank status_Unused \<le> rank s'"
    by blast
  from T h1 have b: "status_of 6 (snd (run_ops old_build resume_at_once example_body example_world))
      = status_of 6 example_world"
    by blast
  have f: "status_of 6 (snd (run_steps old_build example_run unused_world)) = Some status_Finished"
    by (simp add: example_run_def unused_world_def status_of_fire fire_def put_eq generator_at_def
        scripted_caller_def eval_defs yield_eval_defs status_of_def example_world_def live_def
        Nuitka_Generator_GetName_def)
  from u a f s0 b show ?thesis by (simp only: simp_thms)
qed

text \<open>
  Claim C7: the name accessor returns the pointer stored in \<open>m_name\<close> and has no
  effect: the state after the call is the state before it. The label is never rewritten by
  the header: over every run of its operations the \<open>m_name\<close> of every generator stays
  what it was, provided the caller leaves it alone while the producer is suspended.
\<close>

theorem Nuitka_Generator_GetName_reads_label:
  assumes "generator_at ob w = Some g"
  shows "Nuitka_Generator_GetName ob w = (Inr (m_name g), w) \<and>
         ((\<forall>f u u'. env f u = Some u' \<longrightarrow> name_of a u' = name_of a u) \<longrightarrow>
            name_of a (snd (run_ops b env xs w)) = name_of a w)"
proof (intro conjI impI)
  show "Nuitka_Generator_GetName ob w = (Inr (m_name g), w)"
    using assms by (simp add: Nuitka_Generator_GetName_def deref_def ret_def)
next
  assume "\<forall>f u u'. env f u = Some u' \<longrightarrow> name_of a u' = name_of a u"
  then have e: "\<And>f u u'. env f u = Some u' \<Longrightarrow> name_of a u = name_of a u'"
    by simp
  from run_ops_related [of "name_of a" "(=)" env w b xs, OF untouched_name_of _ _ e]
  show "name_of a (snd (run_ops b env xs w)) = name_of a w"
    by simp
qed

theorem Nuitka_Generator_GetName_reads_label_witness:
  "generator_at (Some 6) example_world = Some example_generator \<and>
   Nuitka_Generator_GetName (Some 6) example_world = (Inr (Some 10), example_world) \<and>
   name_of 6 (snd (run_ops old_build (resume_sending 6 (Some 4)) example_body example_world))
     = Some (Some 10)"
proof -
  have g: "generator_at (Some 6) example_world = Some example_generator"
    by (simp add: generator_at_def example_world_def)
  have n: "m_name example_generator = Some 10"
    by (simp add: example_generator_def)
  have n0: "name_of 6 example_world = Some (Some 10)"
    by (simp add: name_of_def g n)
  have h: "\<forall>f u u'. resume_sending 6 (Some 4) f u = Some u' \<longrightarrow> name_of 6 u' = name_of 6 u"
    using untouched_name_of [of 6] by (auto simp: resume_sending_def untouched_def)
  note T = Nuitka_Generator_GetName_reads_label [OF g, where env = "resume_sending 6 (Some 4)"
      and a = 6 and b = old_build and xs = example_body]
  from T have a: "Nuitka_Generator_GetName (Some 6) example_world = (Inr (Some 10), example_world)"
    using n by simp
  from T h have b: "name_of 6 (snd (run_ops old_build (resume_sending 6 (Some 4)) example_body
      example_world)) = name_of 6 example_world"
    by blast
  from g a b n0 show ?thesis by simp
qed

text \<open>
  Claim C6: one slot, no buffer, program order. Take any caller that notes what it finds
  in \<open>m_yielded\<close> each time it gets control. When a producer yields the values
  \<open>vs\<close> one after the other, the notes the caller has added at the end are the first
  \<open>n\<close> values of \<open>vs\<close>, in their order, one note for each switch; and \<open>n\<close> is the
  length of \<open>vs\<close> when the run was not cut short by a failed assertion, an invalid
  pointer or a caller that never resumed.
\<close>

theorem yields_observed_in_order:
  assumes "\<forall>f u u'. env f u = Some u' \<longrightarrow> other_stacks u' = other_stacks u @ [yielded_of a u]"
  shows "\<exists>n. n \<le> length vs \<and>
           other_stacks (snd (run_ops b env (map (Yield (Some a)) vs) w))
             = other_stacks w @ take n vs \<and>
           (fst (run_ops b env (map (Yield (Some a)) vs) w) = None \<longrightarrow> n = length vs)"
proof (induction vs arbitrary: w)
  case Nil
  show ?case by simp
next
  case (Cons v vs)
  let ?x = "Yield (Some a) v"
  let ?xs = "map (Yield (Some a)) vs"
  have m: "map (Yield (Some a)) (v # vs) = ?x # ?xs" by simp
  obtain r w' where step: "run_op b env ?x w = (r, w')"
    by (cases "run_op b env ?x w") blast
  have "other_stacks (snd (r, w')) = other_stacks w @ [v] \<or>
        other_stacks (snd (r, w')) = other_stacks w \<and>
        (\<exists>e. fst (r, w') = Inl e \<and> e \<noteq> PythonException)"
    using Yield_step [OF assms, of b v w] by (simp only: step)
  then have "other_stacks w' = other_stacks w @ [v] \<or>
        other_stacks w' = other_stacks w \<and> (\<exists>e. r = Inl e \<and> e \<noteq> PythonException)"
    by (simp only: snd_conv fst_conv)
  then consider (seen) "other_stacks w' = other_stacks w @ [v]"
    | (lost) "other_stacks w' = other_stacks w" "\<exists>e. r = Inl e \<and> e \<noteq> PythonException"
    by blast
  then show ?case
  proof cases
    case lost
    then obtain e where e: "r = Inl e" "e \<noteq> PythonException" by blast
    have "run_op b env ?x w = (Inl e, w')"
      using step e(1) by (simp only:)
    then have "run_ops b env (?x # ?xs) w = (Some e, w')"
      using e(2) by (rule run_ops_Cons_fatal)
    with lost(1) have F: "0 \<le> length (v # vs) \<and>
        other_stacks (snd (run_ops b env (map (Yield (Some a)) (v # vs)) w))
          = other_stacks w @ take 0 (v # vs) \<and>
        (fst (run_ops b env (map (Yield (Some a)) (v # vs)) w) = None \<longrightarrow> 0 = length (v # vs))"
      unfolding m by (simp del: run_ops.simps run_op.simps)
    show ?thesis by (rule exI [of _ 0]) (rule F)
  next
    case seen
    show ?thesis
    proof (cases "\<exists>e. r = Inl e \<and> e \<noteq> PythonException")
      case True
      then obtain e where e: "r = Inl e" "e \<noteq> PythonException" by blast
      have "run_op b env ?x w = (Inl e, w')"
        using step e(1) by (simp only:)
      then have "run_ops b env (?x # ?xs) w = (Some e, w')"
        using e(2) by (rule run_ops_Cons_fatal)
      with seen have F: "1 \<le> length (v # vs) \<and>
          other_stacks (snd (run_ops b env (map (Yield (Some a)) (v # vs)) w))
            = other_stacks w @ take 1 (v # vs) \<and>
          (fst (run_ops b env (map (Yield (Some a)) (v # vs)) w) = None \<longrightarrow> 1 = length (v # vs))"
        unfolding m by (simp del: run_ops.simps run_op.simps)
      show ?thesis by (rule exI [of _ 1]) (rule F)
    next
      case False
      have go: "run_ops b env (?x # ?xs) w = run_ops b env ?xs w'"
        using step False by (rule run_ops_Cons_go)
      from Cons.IH [of w'] show ?thesis
      proof (elim exE conjE)
        fix n
        assume n: "n \<le> length vs"
          "other_stacks (snd (run_ops b env ?xs w')) = other_stacks w' @ take n vs"
          "fst (run_ops b env ?xs w') = None \<longrightarrow> n = length vs"
        have F: "Suc n \<le> length (v # vs) \<and>
            other_stacks (snd (run_ops b env (map (Yield (Some a)) (v # vs)) w))
              = other_stacks w @ take (Suc n) (v # vs) \<and>
            (fst (run_ops b env (map (Yield (Some a)) (v # vs)) w) = None \<longrightarrow>
               Suc n = length (v # vs))"
          unfolding m go using n seen by (simp del: run_ops.simps run_op.simps)
        show ?thesis by (rule exI [of _ "Suc n"]) (rule F)
      qed
    qed
  qed
qed

theorem yields_observed_in_order_witness:
  "fst (run_ops old_build (observing 6) (map (Yield (Some 6)) [Some 2, Some 3, Some 4]) example_world)
     = None \<and>
   other_stacks example_world = [] \<and>
   other_stacks
     (snd (run_ops old_build (observing 6) (map (Yield (Some 6)) [Some 2, Some 3, Some 4]) example_world))
     = [Some 2, Some 3, Some 4]"
proof -
  have h: "\<forall>f u u'. observing 6 f u = Some u' \<longrightarrow> other_stacks u' = other_stacks u @ [yielded_of 6 u]"
    by (auto simp: observing_def)
  have g: "generator_at (Some 6) example_world = Some example_generator"
    by (simp add: generator_at_def example_world_def)
  have l: "live example_world (Some 2)" "live example_world (Some 3)" "live example_world (Some 4)"
    by (simp_all add: live_def example_world_def)
  have n: "m_exception_type example_generator = None"
    by (simp add: example_generator_def)
  have r: "fst (run_ops old_build (observing 6) (map (Yield (Some 6)) [Some 2, Some 3, Some 4])
      example_world) = None"
    by (simp add: observing_yield live_put generator_at_put g l n del: run_op.simps)
  have e: "other_stacks example_world = []"
    by (simp add: example_world_def)
  let ?final = "run_ops old_build (observing 6) (map (Yield (Some 6)) [Some 2, Some 3, Some 4])
      example_world"
  from yields_observed_in_order [OF h, of "[Some 2, Some 3, Some 4]" old_build example_world]
  have "other_stacks (snd ?final) = [Some 2, Some 3, Some 4]"
  proof (elim exE conjE)
    fix n
    assume n: "other_stacks (snd ?final) = other_stacks example_world @ take n [Some 2, Some 3, Some 4]"
      "fst ?final = None \<longrightarrow> n = length [Some 2, Some 3, Some (4::nat)]"
    from n(2) r have "n = 3" by (simp del: run_ops.simps run_op.simps)
    with n(1) e show ?thesis by (simp del: run_ops.simps run_op.simps)
  qed
  with r e show ?thesis by (simp del: run_ops.simps run_op.simps)
qed

end
